theory Spec2Isabelle
  imports Complex_Main
begin

section \<open>Strings and numbers of the host language\<close>

text \<open>
  A JavaScript string is a sequence of UTF-16 code units. The model writes it as a
  \<open>string\<close>, so it covers the strings whose code units are below 256: the character
  \<open>c\<close> stands for the code unit \<open>of_char c\<close>. Every message of the program lies in
  that range (the accented letters of its Spanish messages are written \<open>CHR 0xE1\<close> and so on).
\<close>

definition digit_char :: "nat \<Rightarrow> char" where
  "digit_char d = ''0123456789'' ! (d mod 10)"

text \<open>\<open>String(n)\<close> for a non-negative integer, as a template literal renders it.\<close>

fun decimal :: "nat \<Rightarrow> string" where
  "decimal n = (if n < 10 then [digit_char n] else decimal (n div 10) @ [digit_char (n mod 10)])"

declare decimal.simps [simp del]

text \<open>
  \<open>(bytes / 1024 / 1024).toFixed(2)\<close>. Dividing by a power of two is exact in binary
  floating point, so for a size below \<open>2 ^ 53\<close> the quotient is the rational number
  \<open>bytes / 2 ^ 20\<close>, and \<open>toFixed(2)\<close> prints the integer \<open>n\<close> nearest to a hundred times
  it (the larger one on a tie) with two decimals.
\<close>

definition toFixed2 :: "nat \<Rightarrow> string" where
  "toFixed2 bytes =
     (let n = (bytes * 200 + 1024 * 1024) div (2 * 1024 * 1024)
      in decimal (n div 100) @ ''.'' @ [digit_char (n div 10), digit_char n])"

definition fileSizeInMB :: "nat \<Rightarrow> rat" where
  "fileSizeInMB bytes = of_nat bytes / (1024 * 1024)"

text \<open>
  \<open>toLowerCase\<close> on the code units below 256: the letters \<open>A\<close> to \<open>Z\<close> and the accented
  capitals \<open>0xC0\<close> to \<open>0xDE\<close> (without the multiplication sign \<open>0xD7\<close>) go to the
  letter 32 above, which is the same character with the bit of value 32 set.
\<close>

definition toLowerCase_char :: "char \<Rightarrow> char" where
  "toLowerCase_char c =
     (let n = (of_char c :: nat)
      in if (65 \<le> n \<and> n \<le> 90) \<or> (192 \<le> n \<and> n \<le> 214) \<or> (216 \<le> n \<and> n \<le> 222)
         then (case c of Char b0 b1 b2 b3 b4 b5 b6 b7 \<Rightarrow> Char b0 b1 b2 b3 b4 True b6 b7)
         else c)"

definition toLowerCase :: "string \<Rightarrow> string" where
  "toLowerCase s = map toLowerCase_char s"

fun startsWith :: "string \<Rightarrow> string \<Rightarrow> bool" where
  "startsWith s [] = True"
| "startsWith [] (p # ps) = False"
| "startsWith (c # cs) (p # ps) = (c = p \<and> startsWith cs ps)"

text \<open>\<open>s.includes(p)\<close>: \<open>p\<close> occurs in \<open>s\<close> as a substring.\<close>

fun includes_str :: "string \<Rightarrow> string \<Rightarrow> bool" where
  "includes_str [] p = (p = [])"
| "includes_str (c # cs) p = (startsWith (c # cs) p \<or> includes_str cs p)"

text \<open>The white space that \<open>trim()\<close> removes, among the code units below 256.\<close>

definition is_space :: "char \<Rightarrow> bool" where
  "is_space c = (c \<in> set [CHR 0x09, CHR 0x0A, CHR 0x0B, CHR 0x0C, CHR 0x0D, CHR 0x20, CHR 0xA0])"

definition trim :: "string \<Rightarrow> string" where
  "trim s = rev (dropWhile is_space (rev (dropWhile is_space s)))"

fun drop_newline :: "string \<Rightarrow> string" where
  "drop_newline [] = []"
| "drop_newline (c # cs) = (if c = CHR 0x0A then cs else c # cs)"

text \<open>
  \<open>s.replace(/p\n?/g, '')\<close> for a literal, non-empty \<open>p\<close>: scanning from the left, every
  occurrence of \<open>p\<close> is removed together with a line feed that follows it, and the scan
  goes on behind the match.
\<close>

function remove_all :: "string \<Rightarrow> string \<Rightarrow> string" where
  "remove_all p s =
     (if s = [] \<or> p = [] then s
      else if startsWith s p then remove_all p (drop_newline (drop (length p) s))
      else hd s # remove_all p (tl s))"
  by pat_completeness auto
termination
proof (relation "measure (\<lambda>(p, s). length s)")
  show "wf (measure (\<lambda>(p, s). length s))" by simp
next
  fix p s :: string
  assume "\<not> (s = [] \<or> p = [])"
  then have "length (drop (length p) s) < length s" by simp
  moreover have "length (drop_newline t) \<le> length t" for t
    by (cases t) auto
  then have "length (drop_newline (drop (length p) s)) \<le> length (drop (length p) s)" .
  ultimately show "((p, drop_newline (drop (length p) s)), (p, s)) \<in> measure (\<lambda>(p, s). length s)"
    by simp
next
  fix p s :: string
  assume "\<not> (s = [] \<or> p = [])"
  then show "((p, tl s), (p, s)) \<in> measure (\<lambda>(p, s). length s)" by simp
qed

declare remove_all.simps [simp del]

text \<open>
  The cleaning of the inference answer in \<open>getVideoDescription\<close>:
  \<open>response.text().trim()\<close>, then the two \<open>replace\<close> calls, then \<open>trim()\<close>.
\<close>

definition clean_response :: "string \<Rightarrow> string" where
  "clean_response text = trim (remove_all ''```'' (remove_all ''```json'' (trim text)))"

section \<open>Constants\<close>

definition MAX_CONCURRENT_REQUESTS :: int where
  "MAX_CONCURRENT_REQUESTS = 2"

definition HTTP_TIMEOUT :: nat where
  "HTTP_TIMEOUT = 270000"

definition ANALYSIS_TIMEOUT :: nat where
  "ANALYSIS_TIMEOUT = 180000"

definition maxRetries :: nat where
  "maxRetries = 2"


section \<open>Data\<close>

text \<open>
  \<open>JSON.parse\<close> belongs to the platform, so the model takes it from the environment as a
  function from a text to the parsed value, \<open>None\<close> where \<open>JSON.parse\<close> throws a
  \<open>SyntaxError\<close>. The type \<open>'j\<close> is the type of parsed values.
\<close>

record token_usage =
  promptTokens :: nat
  candidatesTokens :: nat
  totalTokens :: nat

text \<open>
  What the field \<open>description\<close> of an answer can hold: a parsed value, the stored text as it
  is (a cached row whose text does not parse), or the placeholder object
  \<open>{error, raw_response, parsed_at}\<close> that \<open>getVideoDescription\<close> builds.
\<close>

datatype 'j description =
    Parsed 'j
  | Raw string
  | Placeholder (error: string) (raw_response: string) (parsed_at: string)

record 'j analysis =
  description :: "'j description"
  modelUsed :: string
  tokenUsage :: token_usage

text \<open>A row of the table \<open>videos\<close>.\<close>

record video_row =
  drive_id :: string
  row_description :: string
  row_token_usage :: "string option"

text \<open>The JSON bodies the program sends, one constructor for each shape.\<close>

datatype 'j body =
    MissingBody string
  | DuplicateBody string string
  | TimeoutBody string string bool
  | ServerTimeoutBody string nat
  | FailureBody string string nat
  | CachedBody string "'j description" bool "'j option"
  | FreshBody string "'j description" bool string token_usage

datatype 'j response = Response (status: nat) (body: "'j body")

record model_config =
  name :: string
  maxSizeMB :: nat

datatype call =
    GetVideoFromDB string
  | DownloadVideoFromDrive string
  | GetVideoDescription string
  | InsertVideo string
  | CleanupTempFile string

text \<open>
  The world outside the queue: for each response object (a number stands for the object)
  the responses sent on it, in order; the temporary files on disk; the paths of the write
  streams whose file has not been opened yet; and the calls made to the collaborators.
\<close>

record 'j world =
  sent :: "nat \<Rightarrow> 'j response list"
  files :: "string list"
  pending_opens :: "string list"
  calls :: "call list"

definition headersSent :: "'j world \<Rightarrow> nat \<Rightarrow> bool" where
  "headersSent w res = (sent w res \<noteq> [])"

definition send :: "nat \<Rightarrow> 'j response \<Rightarrow> 'j world \<Rightarrow> 'j world" where
  "send res r w = w\<lparr>sent := (sent w)(res := sent w res @ [r])\<rparr>"

text \<open>The guarded form \<open>if (!res.headersSent) res.status(..).json(..)\<close>.\<close>

definition send_once :: "nat \<Rightarrow> 'j response \<Rightarrow> 'j world \<Rightarrow> 'j world" where
  "send_once res r w = (if \<not> headersSent w res then send res r w else w)"

definition called :: "call \<Rightarrow> 'j world \<Rightarrow> 'j world" where
  "called c w = w\<lparr>calls := calls w @ [c]\<rparr>"

section \<open>The environment of one pipeline run\<close>

text \<open>
  What the collaborators answer during one run of \<open>processVideo\<close>, and which side wins each
  \<open>Promise.race\<close> against a timer. A run is a function of these answers.
\<close>

record file_meta =
  meta_name :: "string option"
  meta_size :: "nat option"

datatype save_outcome =
    SaveEnd
  | SaveError string
  | SaveTimeout

datatype gen_outcome =
    GenFailed
  | GenResponse string "token_usage option"

text \<open>
  \<open>fs.createWriteStream\<close> opens its file asynchronously: the file is there before anything
  else looks at the path, or only after the clean-up of the run has looked at it, or never
  (the open fails).
\<close>

datatype open_outcome =
    OpenedAtOnce
  | OpenedLate
  | OpenFailed

record 'j env =
  JSON_parse :: "string \<Rightarrow> 'j option"
  db_get :: "string + video_row option"
  analysis_deadline :: bool
  drive_ok :: bool
  metadata :: "string + file_meta"
  media :: "string option"
  stream_open :: open_outcome
  save :: save_outcome
  unlink :: "string option"
  fetch_deadline :: bool
  clock :: nat
  genAI_ok :: bool
  stat :: "string + nat"
  read_file :: "string option"
  generate :: "string \<Rightarrow> gen_outcome"
  infer_deadline :: bool
  db_insert :: "string option"
  iso_now :: string


section \<open>The pipeline\<close>

text \<open>
  \<open>cleanupTempFile\<close>: \<open>fs.existsSync\<close>, then \<open>fs.unlinkSync\<close>. The function never throws:
  when \<open>unlinkSync\<close> throws (the field \<open>unlink\<close> of the environment holds the message), the
  error is caught and logged and the file stays. The disk is the list of the temporary files
  that exist.
\<close>

definition cleanupTempFile :: "'j env \<Rightarrow> string \<Rightarrow> 'j world \<Rightarrow> 'j world" where
  "cleanupTempFile e filePath w =
     (let w1 = called (CleanupTempFile filePath) w
      in if filePath \<in> set (files w1)
         then (case unlink e of
                 None \<Rightarrow> w1\<lparr>files := removeAll filePath (files w1)\<rparr>
               | Some msg \<Rightarrow> w1)
         else w1)"

text \<open>
  \<open>fs.createWriteStream(filePath)\<close>: the file is created when the open completes, which the
  environment places.
\<close>

definition createWriteStream :: "'j env \<Rightarrow> string \<Rightarrow> 'j world \<Rightarrow> 'j world" where
  "createWriteStream e filePath w =
     (case stream_open e of
        OpenedAtOnce \<Rightarrow>
          if filePath \<in> set (files w) then w else w\<lparr>files := files w @ [filePath]\<rparr>
      | OpenedLate \<Rightarrow> w\<lparr>pending_opens := pending_opens w @ [filePath]\<rparr>
      | OpenFailed \<Rightarrow> w)"

text \<open>The opens that are still under way complete.\<close>

definition complete_opens :: "'j world \<Rightarrow> 'j world" where
  "complete_opens w =
     w\<lparr>files := files w @ filter (\<lambda>p. p \<notin> set (files w)) (remdups (pending_opens w)),
       pending_opens := []\<rparr>"

text \<open>
  \<open>downloadVideoFromDrive\<close>. An error of the two awaited requests and of the size check is
  caught and wrapped; the promise of the last stage is returned without \<open>await\<close>, so its
  rejection passes the \<open>catch\<close> block unwrapped. \<open>path.join\<close> is written as concatenation,
  which it is for an id and a name without \<open>/\<close>.
\<close>

definition downloadVideoFromDrive ::
  "'j env \<Rightarrow> string \<Rightarrow> 'j world \<Rightarrow> (string + string) \<times> 'j world" where
  "downloadVideoFromDrive e vid w =
     (let w0 = called (DownloadVideoFromDrive vid) w;
          wrapped = (\<lambda>msg. ''No se pudo descargar el video: '' @ msg)
      in if \<not> drive_ok e
         then (Inl (''Google Drive API no est'' @ [CHR 0xE1] @ '' configurada correctamente''), w0)
         else case metadata e of
           Inl msg \<Rightarrow> (Inl (wrapped msg), w0)
         | Inr fileMetadata \<Rightarrow>
             let fileName = (case meta_name fileMetadata of
                               None \<Rightarrow> ''video_'' @ vid
                             | Some n \<Rightarrow> if n = [] then ''video_'' @ vid else n);
                 fileSize = (case meta_size fileMetadata of None \<Rightarrow> 0 | Some n \<Rightarrow> n)
             in if fileSize > 100 * 1024 * 1024
                then (Inl (wrapped (''Archivo demasiado grande: '' @ toFixed2 fileSize @ '' MB'')), w0)
                else
                  let filePath = ''/tmp/'' @ vid @ ''_'' @ decimal (clock e) @ ''_'' @ fileName
                  in case media e of
                       Some msg \<Rightarrow> (Inl (wrapped msg), w0)
                     | None \<Rightarrow>
                         let w1 = createWriteStream e filePath w0
                         in case save e of
                              SaveEnd \<Rightarrow> (Inr filePath, w1)
                            | SaveError msg \<Rightarrow> (Inl msg, cleanupTempFile e filePath w1)
                            | SaveTimeout \<Rightarrow> (Inl ''Timeout guardando archivo'', w1))"

definition modelConfigs :: "model_config list" where
  "modelConfigs =
     [\<lparr>name = ''gemini-2.5-flash'', maxSizeMB = 50\<rparr>, \<lparr>name = ''gemini-2.5-pro'', maxSizeMB = 30\<rparr>]"

definition availableModels :: "nat \<Rightarrow> model_config list" where
  "availableModels bytes =
     filter (\<lambda>config. fileSizeInMB bytes \<le> of_nat (maxSizeMB config)) modelConfigs"

text \<open>The answer of a tier is cleaned and parsed; a text that does not parse is wrapped.\<close>

definition parse_description :: "'j env \<Rightarrow> string \<Rightarrow> 'j description" where
  "parse_description e text =
     (let cleaned = clean_response text
      in case JSON_parse e cleaned of
           Some j \<Rightarrow> Parsed j
         | None \<Rightarrow> Placeholder ''JSON parsing failed'' (take 1000 cleaned) (iso_now e))"

definition usage_of :: "token_usage option \<Rightarrow> token_usage" where
  "usage_of usageMetadata =
     (case usageMetadata of
        None \<Rightarrow> \<lparr>promptTokens = 0, candidatesTokens = 0, totalTokens = 0\<rparr>
      | Some u \<Rightarrow> u)"

text \<open>The loop over the eligible tiers: a tier that fails in any way is skipped.\<close>

fun try_models :: "'j env \<Rightarrow> model_config list \<Rightarrow> string + 'j analysis" where
  "try_models e [] = Inl ''Todos los modelos de Gemini fallaron''"
| "try_models e (modelConfig # rest) =
     (case generate e (name modelConfig) of
        GenFailed \<Rightarrow> try_models e rest
      | GenResponse text usageMetadata \<Rightarrow>
          Inr \<lparr>description = parse_description e text,
               modelUsed = name modelConfig,
               tokenUsage = usage_of usageMetadata\<rparr>)"

text \<open>The outer \<open>catch\<close> of \<open>getVideoDescription\<close> maps the message of the error.\<close>

definition map_error :: "string \<Rightarrow> string" where
  "map_error msg =
     (if includes_str msg ''500'' then ''Servidor de Gemini temporalmente no disponible''
      else if includes_str msg ''503'' then ''Servicio de Gemini sobrecargado''
      else if includes_str msg ''403'' then ''API key inv'' @ [CHR 0xE1] @ ''lida o sin permisos''
      else if includes_str msg ''429'' then ''L'' @ [CHR 0xED] @ ''mite de cuota excedido''
      else msg)"

text \<open>
  \<open>getVideoDescription\<close>. The request sent to a tier (prompt, file content, MIME type) is
  the collaborator's input; its answer is the field \<open>generate\<close> of the environment.
\<close>

definition getVideoDescription ::
  "'j env \<Rightarrow> string \<Rightarrow> 'j world \<Rightarrow> (string + 'j analysis) \<times> 'j world" where
  "getVideoDescription e filePath w =
     (let w1 = called (GetVideoDescription filePath) w
      in if \<not> genAI_ok e
         then (Inl (''Gemini AI no est'' @ [CHR 0xE1] @ '' configurada correctamente''), w1)
         else
           let attempt =
             (case stat e of
                Inl msg \<Rightarrow> Inl msg
              | Inr bytes \<Rightarrow>
                  if fileSizeInMB bytes > 50
                  then Inl (''Archivo demasiado grande ('' @ toFixed2 bytes @ '' MB). M''
                            @ [CHR 0xE1] @ ''ximo: 50 MB'')
                  else if length (availableModels bytes) = 0
                  then Inl (''Archivo demasiado grande para todos los modelos (''
                            @ toFixed2 bytes @ '' MB)'')
                  else case read_file e of
                         Some msg \<Rightarrow> Inl (''Error leyendo archivo: '' @ msg)
                       | None \<Rightarrow> try_models e (availableModels bytes))
           in case attempt of
                Inl msg \<Rightarrow> (Inl (map_error msg), w1)
              | Inr result \<Rightarrow> (Inr result, w1))"

text \<open>
  \<open>performVideoAnalysis\<close>. A stage that loses its race against the timer is not stopped:
  what it does to the disk is in the world the function returns, which is the world once the
  run and what it started have settled, so the opens that were under way have completed.
  \<open>filePath\<close> is set only when the download wins its race, and the \<open>finally\<close> block cleans
  up only then.
\<close>

definition performVideoAnalysis ::
  "'j env \<Rightarrow> string \<Rightarrow> 'j world \<Rightarrow> (string + 'j analysis) \<times> 'j world" where
  "performVideoAnalysis e vid w =
     (let (downloaded, w1) = downloadVideoFromDrive e vid w;
          fetched = (if fetch_deadline e then Inl ''Timeout en descarga'' else downloaded)
      in case fetched of
           Inl msg \<Rightarrow> (Inl msg, complete_opens w1)
         | Inr filePath \<Rightarrow>
             let (described, w2) = getVideoDescription e filePath w1;
                 analysed = (if infer_deadline e
                             then Inl (''Timeout en an'' @ [CHR 0xE1] @ ''lisis'')
                             else described)
             in case analysed of
                  Inl msg \<Rightarrow> (Inl msg, complete_opens (cleanupTempFile e filePath w2))
                | Inr analysisResult \<Rightarrow>
                    let w3 = called (InsertVideo vid) w2
                    in case db_insert e of
                         Some msg \<Rightarrow> (Inl msg, complete_opens (cleanupTempFile e filePath w3))
                       | None \<Rightarrow>
                           (Inr analysisResult, complete_opens (cleanupTempFile e filePath w3)))"

text \<open>
  \<open>processVideo\<close>, for the response object \<open>r\<close>. \<open>Inr ()\<close> is a normal return, \<open>Inl msg\<close> the
  error it throws again.
\<close>

definition processVideo ::
  "'j env \<Rightarrow> string \<Rightarrow> nat \<Rightarrow> 'j world \<Rightarrow> (string + unit) \<times> 'j world" where
  "processVideo e vid r w =
     (let w0 = called (GetVideoFromDB vid) w
      in case db_get e of
           Inl msg \<Rightarrow> (Inl msg, w0)
         | Inr (Some existingVideo) \<Rightarrow>
             let parsedDescription =
                   (case JSON_parse e (row_description existingVideo) of
                      Some j \<Rightarrow> Parsed j
                    | None \<Rightarrow> Raw (row_description existingVideo));
                 usage =
                   (case row_token_usage existingVideo of
                      None \<Rightarrow> None
                    | Some t \<Rightarrow> if t = [] then None else JSON_parse e t)
             in (Inr (),
                 send_once r (Response 200
                   (CachedBody (drive_id existingVideo) parsedDescription True usage)) w0)
         | Inr None \<Rightarrow>
             let (processed, w1) = performVideoAnalysis e vid w0;
                 raced = (if analysis_deadline e
                          then Inl (''Procesamiento excedi'' @ [CHR 0xF3] @ '' el tiempo l''
                                    @ [CHR 0xED] @ ''mite'')
                          else processed)
             in case raced of
                  Inl msg \<Rightarrow> (Inl msg, w1)
                | Inr result \<Rightarrow>
                    (Inr (),
                     send_once r (Response 200
                       (FreshBody vid (description result) False (modelUsed result)
                          (tokenUsage result))) w1))"


section \<open>The processing queue\<close>

record queue_item =
  videoId :: string
  res :: nat
  timestamp :: nat
  timeout :: nat

text \<open>The callbacks the program hands to \<open>setTimeout\<close> and to \<open>res.setTimeout\<close>.\<close>

datatype timer_action =
    HttpTimeout string nat
  | SocketTimeout nat
  | Retry string
  | Kick

record timer =
  handle :: nat
  delay :: nat
  action :: timer_action

text \<open>
  The fields of the \<open>ProcessingQueue\<close> object and the global counter \<open>currentProcessing\<close>,
  the timers that are pending, and the calls of \<open>processQueue\<close> that wait at
  \<open>await this.processVideo(videoId, res)\<close>, each with the item it took from the queue.
  \<open>processingIds\<close> is a \<open>Set\<close>: a list without repetitions, in the order of insertion.
\<close>

record 'j state =
  queue :: "queue_item list"
  processingIds :: "string list"
  retryAttempts :: "string \<rightharpoonup> nat"
  currentProcessing :: int
  timers :: "timer list"
  nextTimer :: nat
  running :: "queue_item list"
  world :: "'j world"

definition init :: "'j state" where
  "init = \<lparr>queue = [], processingIds = [], retryAttempts = Map.empty, currentProcessing = 0,
           timers = [], nextTimer = 0, running = [],
           world = \<lparr>sent = (\<lambda>r. []), files = [], pending_opens = [], calls = []\<rparr>\<rparr>"

definition set_add :: "string \<Rightarrow> string list \<Rightarrow> string list" where
  "set_add x xs = (if x \<in> set xs then xs else xs @ [x])"

definition set_delete :: "string \<Rightarrow> string list \<Rightarrow> string list" where
  "set_delete x xs = removeAll x xs"

definition setTimeout :: "timer_action \<Rightarrow> nat \<Rightarrow> 'j state \<Rightarrow> nat \<times> 'j state" where
  "setTimeout cb ms st =
     (nextTimer st,
      st\<lparr>timers := timers st @ [\<lparr>handle = nextTimer st, delay = ms, action = cb\<rparr>],
         nextTimer := nextTimer st + 1\<rparr>)"

definition clearTimeout :: "nat \<Rightarrow> 'j state \<Rightarrow> 'j state" where
  "clearTimeout h st = st\<lparr>timers := filter (\<lambda>t. handle t \<noteq> h) (timers st)\<rparr>"

definition respond :: "nat \<Rightarrow> 'j response \<Rightarrow> 'j state \<Rightarrow> 'j state" where
  "respond r x st = st\<lparr>world := send r x (world st)\<rparr>"

definition respond_once :: "nat \<Rightarrow> 'j response \<Rightarrow> 'j state \<Rightarrow> 'j state" where
  "respond_once r x st = st\<lparr>world := send_once r x (world st)\<rparr>"

text \<open>\<open>splice(index, 1)\<close> at the index \<open>findIndex\<close> returns: the first match goes.\<close>

fun remove_first :: "('a \<Rightarrow> bool) \<Rightarrow> 'a list \<Rightarrow> 'a list" where
  "remove_first P [] = []"
| "remove_first P (x # xs) = (if P x then xs else x # remove_first P xs)"

definition removeFromQueue :: "string \<Rightarrow> 'j state \<Rightarrow> 'j state" where
  "removeFromQueue vid st =
     (let st1 = (case find (\<lambda>item. videoId item = vid) (queue st) of
                   None \<Rightarrow> st
                 | Some item \<Rightarrow>
                     clearTimeout (timeout item)
                       (st\<lparr>queue := remove_first (\<lambda>item. videoId item = vid) (queue st)\<rparr>))
      in st1\<lparr>processingIds := set_delete vid (processingIds st1)\<rparr>)"

text \<open>
  \<open>processQueue\<close> up to its \<open>await\<close>: this part runs inside the caller. One call takes at
  most one item.
\<close>

definition processQueue :: "'j state \<Rightarrow> 'j state" where
  "processQueue st =
     (if currentProcessing st \<ge> MAX_CONCURRENT_REQUESTS \<or> length (queue st) = 0 then st
      else case find (\<lambda>item. videoId item \<notin> set (processingIds st)) (queue st) of
             None \<Rightarrow> st
           | Some queueItem \<Rightarrow>
               st\<lparr>processingIds := set_add (videoId queueItem) (processingIds st),
                  currentProcessing := currentProcessing st + 1,
                  running := running st @ [queueItem]\<rparr>)"

definition retryableMessages :: "string list" where
  "retryableMessages =
     [''500'', ''502'', ''503'', ''504'',
      ''timeout'', ''network'', ''ECONNRESET'', ''ETIMEDOUT'',
      ''Internal Server Error'', ''Service Unavailable'',
      ''temporalmente no disponible'', ''sobrecargado'']"

definition isRetryableError :: "string \<Rightarrow> bool" where
  "isRetryableError message =
     list_ex (\<lambda>msg. includes_str (toLowerCase message) (toLowerCase msg)) retryableMessages"

text \<open>
  The \<open>catch\<close> block of \<open>processQueue\<close> for the video \<open>vid\<close>, its response object \<open>r\<close> and
  the message of the error: a retry is scheduled, or the failure is reported.
\<close>

definition processQueue_catch :: "string \<Rightarrow> nat \<Rightarrow> string \<Rightarrow> 'j state \<Rightarrow> 'j state" where
  "processQueue_catch vid r message st =
     (let attempts = (case retryAttempts st vid of None \<Rightarrow> 0 | Some n \<Rightarrow> n)
      in if attempts < maxRetries \<and> isRetryableError message
         then snd (setTimeout (Retry vid) (5000 * (attempts + 1))
                (st\<lparr>retryAttempts := (retryAttempts st)(vid \<mapsto> attempts + 1)\<rparr>))
         else respond_once r
                (Response 500
                   (FailureBody
                      (''Error procesando video despu'' @ [CHR 0xE9] @ ''s de ''
                       @ decimal (attempts + 1) @ '' intentos: '' @ message)
                      vid (attempts + 1)))
                (st\<lparr>retryAttempts := (retryAttempts st)(vid := None)\<rparr>))"

text \<open>The \<open>finally\<close> block of \<open>processQueue\<close>.\<close>

definition processQueue_finally :: "string \<Rightarrow> 'j state \<Rightarrow> 'j state" where
  "processQueue_finally vid st =
     snd (setTimeout Kick 1000
            (removeFromQueue vid (st\<lparr>currentProcessing := currentProcessing st - 1\<rparr>)))"

text \<open>
  \<open>processQueue\<close> from its \<open>await\<close> on, for the waiting call number \<open>i\<close>, when
  \<open>processVideo\<close> settles with the answers \<open>e\<close> of the collaborators: \<open>processVideo\<close> sends
  its response after its last \<open>await\<close>, and the \<open>catch\<close> and \<open>finally\<close> blocks follow before
  any timer can run.
\<close>

definition processQueue_resume :: "'j env \<Rightarrow> nat \<Rightarrow> 'j state \<Rightarrow> 'j state" where
  "processQueue_resume e i st =
     (if i \<ge> length (running st) then st
      else
        let queueItem = running st ! i;
            vid = videoId queueItem;
            r = res queueItem;
            st0 = st\<lparr>running := take i (running st) @ drop (Suc i) (running st)\<rparr>;
            (outcome, w1) = processVideo e vid r (world st0);
            st1 = st0\<lparr>world := w1\<rparr>;
            st2 = (case outcome of
                     Inr u \<Rightarrow> st1
                   | Inl message \<Rightarrow> processQueue_catch vid r message st1)
        in processQueue_finally vid st2)"

text \<open>\<open>ProcessingQueue.add\<close>; \<open>now\<close> is \<open>Date.now()\<close>.\<close>

definition add :: "string \<Rightarrow> nat \<Rightarrow> nat \<Rightarrow> 'j state \<Rightarrow> 'j state" where
  "add vid r now st =
     (if vid \<in> set (processingIds st)
      then respond r (Response 409
             (DuplicateBody (''Video ya est'' @ [CHR 0xE1] @ '' siendo procesado'') vid)) st
      else if list_ex (\<lambda>item. videoId item = vid) (queue st)
      then respond r (Response 409
             (DuplicateBody (''Video ya est'' @ [CHR 0xE1] @ '' en la cola'') vid)) st
      else
        let (h, st1) = setTimeout (HttpTimeout vid r) HTTP_TIMEOUT st;
            queueItem = \<lparr>videoId = vid, res = r, timestamp = now, timeout = h\<rparr>
        in processQueue (st1\<lparr>queue := queue st1 @ [queueItem]\<rparr>))"

text \<open>
  A request \<open>POST /\<close> with the body field \<open>videoId\<close> and the response object \<open>r\<close>: the
  middleware arms the socket timeout of the response, then the route handler runs.
\<close>

definition post :: "string \<Rightarrow> nat \<Rightarrow> nat \<Rightarrow> 'j state \<Rightarrow> 'j state" where
  "post vid r now st =
     (let st1 = snd (setTimeout (SocketTimeout r) HTTP_TIMEOUT st)
      in if vid = [] then respond r (Response 400 (MissingBody ''El campo videoId es requerido'')) st1
         else add vid r now st1)"

text \<open>A pending timer fires: it leaves the list and its callback runs.\<close>

definition fire :: "nat \<Rightarrow> 'j state \<Rightarrow> 'j state" where
  "fire h st =
     (case find (\<lambda>t. handle t = h) (timers st) of
        None \<Rightarrow> st
      | Some t \<Rightarrow>
          let st1 = clearTimeout h st
          in case action t of
               HttpTimeout vid r \<Rightarrow>
                 removeFromQueue vid
                   (respond_once r (Response 408
                      (TimeoutBody (''Procesamiento tom'' @ [CHR 0xF3] @ '' demasiado tiempo'')
                         vid True)) st1)
             | SocketTimeout r \<Rightarrow>
                 respond_once r (Response 408
                   (ServerTimeoutBody ''Timeout de servidor'' (HTTP_TIMEOUT div 1000))) st1
             | Retry vid \<Rightarrow>
                 processQueue (st1\<lparr>processingIds := set_delete vid (processingIds st1)\<rparr>)
             | Kick \<Rightarrow> processQueue st1)"

text \<open>
  The program runs on one thread, so its behaviour is a sequence of events, each handled
  to its end: a request arrives, the two-second interval of the constructor ticks, a pending
  timer fires, or the \<open>processVideo\<close> of a waiting call settles.
\<close>

datatype 'j event =
    Post string nat nat
  | Tick
  | Fire nat
  | Settle nat "'j env"

fun step :: "'j event \<Rightarrow> 'j state \<Rightarrow> 'j state" where
  "step (Post vid r now) st = post vid r now st"
| "step Tick st = processQueue st"
| "step (Fire h) st = fire h st"
| "step (Settle i e) st = processQueue_resume e i st"

definition run :: "'j event list \<Rightarrow> 'j state \<Rightarrow> 'j state" where
  "run evs st = fold step evs st"


section \<open>Concrete environments\<close>

text \<open>
  For the closed theorems below the parser is \<open>JSON.parse\<close> on the texts that consist of
  letters only: such a text is JSON exactly when it is one of the three literal names.
  Every text that the closed theorems hand to the parser is of this kind.
\<close>

datatype json = JNull | JBool bool

definition JSON_parse_word :: "string \<Rightarrow> json option" where
  "JSON_parse_word s =
     (if s = ''null'' then Some JNull
      else if s = ''true'' then Some (JBool True)
      else if s = ''false'' then Some (JBool False)
      else None)"

text \<open>
  A run in which nothing is cached, every collaborator answers, no timer wins its race, the
  file is opened at once and can be unlinked, it has one megabyte, and the first tier answers
  \<open>true\<close>.
\<close>

definition env_ok :: "json env" where
  "env_ok = \<lparr>JSON_parse = JSON_parse_word, db_get = Inr None, analysis_deadline = False,
             drive_ok = True,
             metadata = Inr \<lparr>meta_name = Some ''clip.mp4'', meta_size = Some 1048576\<rparr>,
             media = None, stream_open = OpenedAtOnce, save = SaveEnd, unlink = None,
             fetch_deadline = False, clock = 1700000000000,
             genAI_ok = True, stat = Inr 1048576, read_file = None,
             generate = (\<lambda>tier. GenResponse ''true'' None), infer_deadline = False,
             db_insert = None, iso_now = ''2025-01-01T00:00:00.000Z''\<rparr>"

text \<open>The download stream breaks with a reset connection.\<close>

definition env_reset :: "json env" where
  "env_reset = env_ok\<lparr>save := SaveError ''read ECONNRESET''\<rparr>"

text \<open>The store holds a row for the video.\<close>

definition env_cached :: "json env" where
  "env_cached =
     env_ok\<lparr>db_get := Inr (Some \<lparr>drive_id = ''B'', row_description = ''true'',
                                   row_token_usage = None\<rparr>)\<rparr>"

text \<open>The first tier answers with a text that is not JSON.\<close>

definition env_prose :: "json env" where
  "env_prose = env_ok\<lparr>generate := (\<lambda>tier. GenResponse ''hello'' None)\<rparr>"

text \<open>The first tier answers with 1001 letters.\<close>

definition env_long :: "json env" where
  "env_long = env_ok\<lparr>generate := (\<lambda>tier. GenResponse (replicate 1001 CHR ''x'') None)\<rparr>"


text \<open>
  Five requests arrive together. \<open>X\<close> and \<open>Y\<close> run first, \<open>Z\<close> and \<open>W\<close> follow when they
  are done, and \<open>B\<close> starts only when \<open>Z\<close> is done, shortly before its deadline; \<open>W\<close> is
  still running then. The timers 10, 11 and 12 are the wake-ups that the \<open>finally\<close> block
  arms, the timer 9 is the deadline of \<open>B\<close>.
\<close>

definition busy_until_deadline :: "json event list" where
  "busy_until_deadline =
     [Post ''X'' 0 0, Post ''Y'' 1 0, Post ''Z'' 2 0, Post ''W'' 3 0, Post ''B'' 4 0,
      Settle 0 env_ok, Fire 10, Settle 0 env_ok, Fire 11,
      Settle 0 env_ok, Fire 12]"

section \<open>Invariants\<close>

text \<open>
  The counter \<open>currentProcessing\<close> counts the calls of \<open>processQueue\<close> that wait for their
  \<open>processVideo\<close>, and stays within the limit.
\<close>

definition slots_ok :: "'j state \<Rightarrow> bool" where
  "slots_ok st =
     (currentProcessing st = int (length (running st)) \<and>
      currentProcessing st \<le> MAX_CONCURRENT_REQUESTS)"


text \<open>The queue holds a video at most once.\<close>

definition distinct_queue :: "'j state \<Rightarrow> bool" where
  "distinct_queue st = distinct (map videoId (queue st))"

text \<open>
  A video is idle when it has no item in the queue and no run waits for it. The attempts
  made for a video are the calls of \<open>getVideoFromDB\<close> for it, with which every run of
  \<open>processVideo\<close> starts.
\<close>

definition idle :: "string \<Rightarrow> 'j state \<Rightarrow> bool" where
  "idle vid st = (vid \<notin> videoId ` set (queue st) \<and> vid \<notin> videoId ` set (running st))"

definition attempts_made :: "string \<Rightarrow> 'j world \<Rightarrow> nat" where
  "attempts_made vid w = count_list (calls w) (GetVideoFromDB vid)"

text \<open>The requests for a video among the events.\<close>

fun is_post_for :: "string \<Rightarrow> 'j event \<Rightarrow> bool" where
  "is_post_for vid (Post v r now) = (v = vid)"
| "is_post_for vid Tick = False"
| "is_post_for vid (Fire h) = False"
| "is_post_for vid (Settle i e) = False"


text \<open>A list of calls without a call of \<open>getVideoFromDB\<close>.\<close>

definition quiet :: "call list \<Rightarrow> bool" where
  "quiet xs = (\<forall>c\<in>set xs. case c of GetVideoFromDB v \<Rightarrow> False | _ \<Rightarrow> True)"


text \<open>
  The response objects of the requests among the events; the response objects that the
  queue, the waiting runs and the pending timers refer to; a world that differs from another
  at most by a first response on the response object \<open>r\<close>; and the invariant of delivery:
  no response object has more than one response, one that no request has brought has none
  and is not referred to.
\<close>

fun post_res :: "'j event \<Rightarrow> nat list" where
  "post_res (Post v r now) = [r]"
| "post_res Tick = []"
| "post_res (Fire h) = []"
| "post_res (Settle i e) = []"

definition posted :: "'j event list \<Rightarrow> nat list" where
  "posted evs = concat (map post_res evs)"

fun timer_res :: "timer_action \<Rightarrow> nat set" where
  "timer_res (HttpTimeout v r) = {r}"
| "timer_res (SocketTimeout r) = {r}"
| "timer_res (Retry v) = {}"
| "timer_res Kick = {}"

definition refs :: "'j state \<Rightarrow> nat set" where
  "refs st = res ` set (queue st) \<union> res ` set (running st) \<union>
             (\<Union>t\<in>set (timers st). timer_res (action t))"

definition answers :: "nat \<Rightarrow> 'j world \<Rightarrow> 'j world \<Rightarrow> bool" where
  "answers r w w' =
     ((\<forall>r'. r' \<noteq> r \<longrightarrow> sent w' r' = sent w r') \<and>
      (sent w' r = sent w r \<or> (sent w r = [] \<and> length (sent w' r) = 1)))"

definition once_ok :: "nat set \<Rightarrow> 'j state \<Rightarrow> bool" where
  "once_ok P st =
     ((\<forall>r. length (sent (world st) r) \<le> 1) \<and>
      (\<forall>r. r \<notin> P \<longrightarrow> sent (world st) r = []) \<and>
      refs st \<subseteq> P)"

text \<open>
  The timers. \<open>socket_pending r\<close>: the socket timeout that the middleware armed for the
  response object \<open>r\<close> has not fired yet. \<open>timers_ok\<close>: handles are unique and below the next
  handle, and the only timer that an item of the queue can clear is a deadline timer of
  \<open>add\<close>. \<open>due P\<close>: every response object of \<open>P\<close> has its response or still has its socket
  timeout ahead.
\<close>

definition socket_pending :: "nat \<Rightarrow> 'j state \<Rightarrow> bool" where
  "socket_pending r st = (\<exists>t\<in>set (timers st). action t = SocketTimeout r)"

definition timers_ok :: "'j state \<Rightarrow> bool" where
  "timers_ok st =
     (distinct (map handle (timers st)) \<and>
      (\<forall>t\<in>set (timers st). handle t < nextTimer st) \<and>
      (\<forall>item\<in>set (queue st). timeout item < nextTimer st) \<and>
      (\<forall>t\<in>set (timers st). \<forall>item\<in>set (queue st).
         handle t = timeout item \<longrightarrow> (\<exists>v r. action t = HttpTimeout v r)))"



section \<open>Evaluation\<close>

lemmas string_defs =
  decimal.simps digit_char_def toFixed2_def toLowerCase_def toLowerCase_char_def
  is_space_def trim_def remove_all.simps clean_response_def

lemmas world_defs =
  headersSent_def send_def send_once_def called_def cleanupTempFile_def createWriteStream_def
  complete_opens_def

lemmas pipeline_defs =
  downloadVideoFromDrive_def modelConfigs_def availableModels_def fileSizeInMB_def
  parse_description_def usage_of_def map_error_def getVideoDescription_def
  performVideoAnalysis_def processVideo_def

lemmas queue_defs =
  init_def set_add_def set_delete_def setTimeout_def clearTimeout_def respond_def
  respond_once_def removeFromQueue_def processQueue_def processQueue_catch_def
  processQueue_finally_def processQueue_resume_def add_def post_def fire_def run_def
  MAX_CONCURRENT_REQUESTS_def HTTP_TIMEOUT_def maxRetries_def

lemmas env_defs =
  JSON_parse_word_def env_ok_def env_reset_def env_cached_def env_prose_def env_long_def

lemmas model_defs = queue_defs pipeline_defs world_defs string_defs env_defs Let_def

lemma retryable_reset: "isRetryableError ''read ECONNRESET''"
  by (simp add: isRetryableError_def retryableMessages_def string_defs)

lemmas trace_defs = model_defs retryable_reset busy_until_deadline_def


section \<open>Bounded concurrency\<close>

lemma load_setTimeout [simp]:
  "currentProcessing (snd (setTimeout a d st)) = currentProcessing st"
  "running (snd (setTimeout a d st)) = running st"
  by (simp_all add: setTimeout_def)

lemma load_clearTimeout [simp]:
  "currentProcessing (clearTimeout h st) = currentProcessing st"
  "running (clearTimeout h st) = running st"
  by (simp_all add: clearTimeout_def)

lemma load_respond [simp]:
  "currentProcessing (respond r x st) = currentProcessing st"
  "running (respond r x st) = running st"
  "currentProcessing (respond_once r x st) = currentProcessing st"
  "running (respond_once r x st) = running st"
  by (simp_all add: respond_def respond_once_def)

lemma load_removeFromQueue [simp]:
  "currentProcessing (removeFromQueue vid st) = currentProcessing st"
  "running (removeFromQueue vid st) = running st"
  by (simp_all add: removeFromQueue_def Let_def split: option.splits)

lemma slots_ok_same:
  "currentProcessing st' = currentProcessing st \<Longrightarrow> running st' = running st \<Longrightarrow>
   slots_ok st \<Longrightarrow> slots_ok st'"
  by (simp add: slots_ok_def)

lemma slots_ok_processQueue: "slots_ok st \<Longrightarrow> slots_ok (processQueue st)"
  by (auto simp: slots_ok_def processQueue_def MAX_CONCURRENT_REQUESTS_def split: option.splits)

lemma load_processQueue_catch [simp]:
  "currentProcessing (processQueue_catch vid r message st) = currentProcessing st"
  "running (processQueue_catch vid r message st) = running st"
  by (simp_all add: processQueue_catch_def Let_def)

lemma load_processQueue_finally [simp]:
  "currentProcessing (processQueue_finally vid st) = currentProcessing st - 1"
  "running (processQueue_finally vid st) = running st"
  by (simp_all add: processQueue_finally_def)

lemma load_processQueue_resume:
  assumes "i < length (running st)"
  shows "currentProcessing (processQueue_resume e i st) = currentProcessing st - 1"
    and "running (processQueue_resume e i st) = take i (running st) @ drop (Suc i) (running st)"
  using assms
  by (simp_all add: processQueue_resume_def Let_def split: prod.splits sum.splits)

lemma slots_ok_processQueue_resume: "slots_ok st \<Longrightarrow> slots_ok (processQueue_resume e i st)"
proof (cases "i < length (running st)")
  case True
  assume ok: "slots_ok st"
  have r: "length (running (processQueue_resume e i st)) = length (running st) - 1"
    using True by (simp add: load_processQueue_resume(2))
  have c: "currentProcessing (processQueue_resume e i st) = currentProcessing st - 1"
    by (rule load_processQueue_resume(1) [OF True])
  from True have "1 \<le> length (running st)" by linarith
  then have "int (length (running st) - 1) = int (length (running st)) - 1"
    by linarith
  with ok r c show ?thesis by (simp add: slots_ok_def)
next
  case False
  assume "slots_ok st"
  with False show ?thesis by (simp add: processQueue_resume_def)
qed

lemma slots_ok_add: "slots_ok st \<Longrightarrow> slots_ok (add vid r now st)"
  unfolding add_def
  by (auto simp: Let_def split: prod.splits
      intro!: slots_ok_processQueue elim!: slots_ok_same [rotated 2] simp: setTimeout_def)

lemma slots_ok_post: "slots_ok st \<Longrightarrow> slots_ok (post vid r now st)"
  unfolding post_def
  by (auto simp: Let_def intro!: slots_ok_add elim!: slots_ok_same [rotated 2])

lemma slots_ok_fire: "slots_ok st \<Longrightarrow> slots_ok (fire h st)"
  unfolding fire_def
  by (auto simp: Let_def split: option.splits timer_action.splits
      intro!: slots_ok_processQueue elim!: slots_ok_same [rotated 2])

lemma slots_ok_step: "slots_ok st \<Longrightarrow> slots_ok (step ev st)"
  by (cases ev) (simp_all add: slots_ok_post slots_ok_processQueue slots_ok_fire slots_ok_processQueue_resume)

lemma slots_ok_run: "slots_ok st \<Longrightarrow> slots_ok (run evs st)"
  unfolding run_def by (induction evs arbitrary: st) (simp_all add: slots_ok_step)

lemma slots_ok_init: "slots_ok init"
  by (simp add: slots_ok_def init_def MAX_CONCURRENT_REQUESTS_def)

text \<open>
  C3. In every state the program reaches, whatever requests arrive, ticks and timers fire and
  runs settle, and in whatever order, \<open>currentProcessing\<close> is at most
  \<open>MAX_CONCURRENT_REQUESTS\<close>, and it is the number of calls of \<open>processQueue\<close> that
  wait for their \<open>processVideo\<close>.
\<close>

theorem bounded_concurrency:
  "currentProcessing (run evs init) \<le> MAX_CONCURRENT_REQUESTS \<and>
   currentProcessing (run evs init) = int (length (running (run evs init)))"
  using slots_ok_run [OF slots_ok_init, of evs] by (simp add: slots_ok_def)

text \<open>Three requests for three videos: two runs start, the third video waits.\<close>

theorem bounded_concurrency_witness:
  "currentProcessing (run [Post ''A'' 0 5, Post ''B'' 1 6, Post ''C'' 2 7] (init :: json state)) = 2 \<and>
   currentProcessing (run [Post ''A'' 0 5, Post ''B'' 1 6, Post ''C'' 2 7] (init :: json state))
     \<le> MAX_CONCURRENT_REQUESTS \<and>
   map videoId (queue (run [Post ''A'' 0 5, Post ''B'' 1 6, Post ''C'' 2 7] (init :: json state)))
     = [''A'', ''B'', ''C'']"
  using bounded_concurrency [of "[Post ''A'' 0 5, Post ''B'' 1 6, Post ''C'' 2 7] :: json event list"]
  by (simp add: queue_defs Let_def cong: let_weak_cong prod.case_cong_weak)


section \<open>Eligible tiers\<close>

text \<open>
  C10. In \<open>getVideoDescription\<close> the list of eligible tiers is tested for emptiness only
  after the check against 50 MB has passed, and then the first tier, whose limit is 50 MB,
  is in the list: the list is not empty, so the branch that reports a file too large for
  every tier is never taken.
\<close>

theorem availableModels_nonempty:
  "\<not> 50 < fileSizeInMB bytes \<Longrightarrow>
   length (availableModels bytes) \<noteq> 0 \<and>
   hd (availableModels bytes) = \<lparr>name = ''gemini-2.5-flash'', maxSizeMB = 50\<rparr>"
  by (simp add: availableModels_def modelConfigs_def)

text \<open>A file of exactly 50 MB passes the check and is eligible for the first tier only.\<close>

theorem availableModels_nonempty_witness:
  "\<not> 50 < fileSizeInMB 52428800 \<and>
   availableModels 52428800 = [\<lparr>name = ''gemini-2.5-flash'', maxSizeMB = 50\<rparr>] \<and>
   length (availableModels 52428800) \<noteq> 0 \<and>
   hd (availableModels 52428800) = \<lparr>name = ''gemini-2.5-flash'', maxSizeMB = 50\<rparr>"
proof -
  have h: "\<not> 50 < fileSizeInMB 52428800" by (simp add: fileSizeInMB_def)
  show ?thesis
    using h availableModels_nonempty [OF h]
    by (simp add: availableModels_def modelConfigs_def fileSizeInMB_def)
qed

section \<open>Duplicate submissions\<close>

text \<open>
  C2. When \<open>add\<close> is called for a video that is in \<open>processingIds\<close> or has an item in the
  queue, the new caller receives the response 409 with the video's id, and nothing else
  changes: no item is created, and the queue, the set of ids, the retry counters, the
  counter of runs, the timers and the waiting runs are as before.
\<close>

theorem add_duplicate:
  assumes "vid \<in> set (processingIds st) \<or> vid \<in> videoId ` set (queue st)"
  shows "add vid r now st =
           st\<lparr>world := (world st)\<lparr>sent := (sent (world st))
             (r := sent (world st) r @
                [Response 409
                   (DuplicateBody
                      (''Video ya est'' @ [CHR 0xE1] @
                       (if vid \<in> set (processingIds st) then '' siendo procesado''
                        else '' en la cola''))
                      vid)])\<rparr>\<rparr>"
proof (cases "vid \<in> set (processingIds st)")
  case True
  then show ?thesis by (simp add: add_def respond_def send_def)
next
  case False
  with assms have "list_ex (\<lambda>item. videoId item = vid) (queue st)"
    by (auto simp: list_ex_iff)
  with False show ?thesis by (simp add: add_def respond_def send_def)
qed

text \<open>A second request for the video \<open>A\<close> while its first run is waiting.\<close>

theorem add_duplicate_witness:
  "(''A'' \<in> set (processingIds (run [Post ''A'' 0 5] (init :: json state))) \<or>
    ''A'' \<in> videoId ` set (queue (run [Post ''A'' 0 5] (init :: json state)))) \<and>
   sent (world (add ''A'' 1 6 (run [Post ''A'' 0 5] (init :: json state)))) 1 =
     [Response 409 (DuplicateBody (''Video ya est'' @ [CHR 0xE1] @ '' siendo procesado'') ''A'')] \<and>
   queue (add ''A'' 1 6 (run [Post ''A'' 0 5] (init :: json state))) =
     queue (run [Post ''A'' 0 5] (init :: json state))"
proof -
  let ?s = "run [Post ''A'' 0 5] (init :: json state)"
  have h: "''A'' \<in> set (processingIds ?s) \<or> ''A'' \<in> videoId ` set (queue ?s)"
    by (simp add: queue_defs Let_def cong: let_weak_cong prod.case_cong_weak)
  note m = add_duplicate [OF h, of 1 6]
  have q: "queue (add ''A'' 1 6 ?s) = queue ?s" by (subst m) simp
  have p: "''A'' \<in> set (processingIds ?s)"
    by (simp add: queue_defs Let_def cong: let_weak_cong prod.case_cong_weak)
  have e: "sent (world ?s) 1 = []"
    by (simp add: queue_defs Let_def cong: let_weak_cong prod.case_cong_weak)
  have s: "sent (world (add ''A'' 1 6 ?s)) 1 =
     [Response 409 (DuplicateBody (''Video ya est'' @ [CHR 0xE1] @ '' siendo procesado'') ''A'')]"
    by (subst m) (use p e in simp)
  from h q s show ?thesis by blast
qed


section \<open>Cache hits\<close>

text \<open>
  C7, as stated, fails when the deadline of the request has passed: the run of \<open>B\<close> starts
  three seconds before the deadline timer of \<open>add\<close> fires, the timer sends the response 408,
  and when the store then answers with the row of \<open>B\<close>, the guard \<open>!res.headersSent\<close> keeps
  \<open>processVideo\<close> from sending the stored result. The run has asked the store and nothing
  else.
\<close>

theorem cache_hit_after_deadline_counterexample:
  "map videoId (running (run busy_until_deadline init)) = [''W'', ''B''] \<and>
   sent (world (run busy_until_deadline init)) 4 = [] \<and>
   sent (world (run (busy_until_deadline @ [Fire 9, Settle 1 env_cached]) init)) 4 =
     [Response 408 (TimeoutBody (''Procesamiento tom'' @ [CHR 0xF3] @ '' demasiado tiempo'') ''B'' True)] \<and>
   filter (\<lambda>c. c \<in> {GetVideoFromDB ''B'', DownloadVideoFromDrive ''B''})
     (calls (world (run (busy_until_deadline @ [Fire 9, Settle 1 env_cached]) init))) =
     [GetVideoFromDB ''B'']"
  by (simp add: trace_defs busy_until_deadline_def cong: let_weak_cong prod.case_cong_weak)

text \<open>
  C7, amended. When the store holds a row for the video, \<open>processVideo\<close> returns normally,
  calls the store and no other collaborator (no download, no inference, no insertion, no
  clean-up), and leaves the disk as it is; if no response has been sent on the response
  object yet, it sends the stored result (the stored description, parsed when it parses)
  with \<open>cached\<close> true, and otherwise it sends nothing. Other response objects are not touched.
\<close>

theorem cache_hit_short_circuits:
  assumes "db_get e = Inr (Some row)"
  shows "fst (processVideo e vid r w) = Inr () \<and>
         calls (snd (processVideo e vid r w)) = calls w @ [GetVideoFromDB vid] \<and>
         files (snd (processVideo e vid r w)) = files w \<and>
         (\<forall>r'. r' \<noteq> r \<longrightarrow> sent (snd (processVideo e vid r w)) r' = sent w r') \<and>
         (headersSent w r \<longrightarrow> sent (snd (processVideo e vid r w)) r = sent w r) \<and>
         (\<not> headersSent w r \<longrightarrow>
            sent (snd (processVideo e vid r w)) r =
              [Response 200
                 (CachedBody (drive_id row)
                    (case JSON_parse e (row_description row) of
                       Some j \<Rightarrow> Parsed j
                     | None \<Rightarrow> Raw (row_description row))
                    True
                    (case row_token_usage row of
                       None \<Rightarrow> None
                     | Some t \<Rightarrow> if t = [] then None else JSON_parse e t))])"
  using assms
  by (simp add: processVideo_def send_once_def send_def headersSent_def called_def Let_def)

text \<open>A run for \<open>B\<close>, whose row is in the store, on a response object that is still open.\<close>

theorem cache_hit_short_circuits_witness:
  "db_get env_cached = Inr (Some \<lparr>drive_id = ''B'', row_description = ''true'', row_token_usage = None\<rparr>) \<and>
   \<not> headersSent (world (init :: json state)) 0 \<and>
   fst (processVideo env_cached ''B'' 0 (world init)) = Inr () \<and>
   calls (snd (processVideo env_cached ''B'' 0 (world init))) = [GetVideoFromDB ''B''] \<and>
   sent (snd (processVideo env_cached ''B'' 0 (world init))) 0 =
     [Response 200 (CachedBody ''B'' (Parsed (JBool True)) True None)]"
proof -
  have 1: "db_get env_cached =
      Inr (Some \<lparr>drive_id = ''B'', row_description = ''true'', row_token_usage = None\<rparr>)"
    by (simp add: env_defs)
  have 2: "\<not> headersSent (world (init :: json state)) 0"
    by (simp add: headersSent_def init_def)
  have 3: "JSON_parse env_cached ''true'' = Some (JBool True)" by (simp add: env_defs)
  have 4: "calls (world (init :: json state)) = []" by (simp add: init_def)
  from cache_hit_short_circuits [OF 1, of "''B''" 0 "world (init :: json state)"] 1 2 3 4
  show ?thesis by simp
qed

section \<open>Answers that do not parse\<close>

lemma try_models_skip:
  assumes "\<forall>c\<in>set failed. generate e (name c) = GenFailed"
  shows "try_models e (failed @ ms) = try_models e ms"
  using assms by (induction failed) simp_all

lemma getVideoDescription_parse_failure:
  assumes "genAI_ok e" and "stat e = Inr bytes" and "\<not> 50 < fileSizeInMB bytes"
    and "read_file e = None"
    and "availableModels bytes = failed @ tier # rest"
    and "\<forall>c\<in>set failed. generate e (name c) = GenFailed"
    and "generate e (name tier) = GenResponse text usage"
    and "JSON_parse e (clean_response text) = None"
  shows "getVideoDescription e filePath w =
           (Inr \<lparr>description = Placeholder ''JSON parsing failed''
                                 (take 1000 (clean_response text)) (iso_now e),
                 modelUsed = name tier,
                 tokenUsage = usage_of usage\<rparr>,
            called (GetVideoDescription filePath) w)"
proof -
  have "try_models e (availableModels bytes) = try_models e (tier # rest)"
    using assms(5,6) by (simp add: try_models_skip)
  also have "\<dots> = Inr \<lparr>description = Placeholder ''JSON parsing failed''
                                 (take 1000 (clean_response text)) (iso_now e),
                 modelUsed = name tier, tokenUsage = usage_of usage\<rparr>"
    using assms(7,8) by (simp add: parse_description_def)
  finally have t: "try_models e (availableModels bytes) =
      Inr \<lparr>description = Placeholder ''JSON parsing failed''
                                 (take 1000 (clean_response text)) (iso_now e),
                 modelUsed = name tier, tokenUsage = usage_of usage\<rparr>" .
  have ne: "length (availableModels bytes) \<noteq> 0" using assms(5) by simp
  show ?thesis
    using assms(1-4) ne t by (simp add: getVideoDescription_def Let_def)
qed

lemma clean_hello: "clean_response ''hello'' = ''hello''"
  by (simp add: string_defs)

lemma remove_all_no_match:
  assumes "p \<noteq> []" and "hd p \<notin> set s"
  shows "remove_all p s = s"
  using assms
proof (induction s)
  case Nil
  then show ?case by (simp add: remove_all.simps)
next
  case (Cons c cs)
  from Cons.prems have "\<not> startsWith (c # cs) p" by (cases p) auto
  with Cons show ?case by (subst remove_all.simps) simp
qed

lemma trim_no_space:
  assumes "\<forall>c\<in>set s. \<not> is_space c"
  shows "trim s = s"
proof -
  have "dropWhile is_space s = s" using assms by (cases s) auto
  moreover have "dropWhile is_space (rev s) = rev s" using assms by (cases "rev s") (auto dest: arg_cong[where f=set])
  ultimately show ?thesis by (simp add: trim_def)
qed

lemma clean_letters: "clean_response (replicate n CHR ''x'') = replicate n CHR ''x''"
proof -
  have t: "trim (replicate n CHR ''x'') = replicate n CHR ''x''"
    by (rule trim_no_space) (simp add: is_space_def)
  have r1: "remove_all ''```json'' (replicate n CHR ''x'') = replicate n CHR ''x''"
    by (rule remove_all_no_match) auto
  have r2: "remove_all ''```'' (replicate n CHR ''x'') = replicate n CHR ''x''"
    by (rule remove_all_no_match) auto
  show ?thesis by (simp add: clean_response_def t r1 r2)
qed

lemma long_neq: "length s \<noteq> 1001 \<Longrightarrow> replicate 1001 CHR ''x'' \<noteq> s"
  by auto

lemma word_x_not_json: "JSON_parse_word (replicate 1001 CHR ''x'') = None"
  unfolding JSON_parse_word_def
  by (simp add: long_neq)

text \<open>
  C8, as stated, fails for a long answer: the placeholder does not carry the text, it carries
  its first 1000 code units. The first tier answers with 1001 letters \<open>x\<close>, which is not
  JSON; \<open>getVideoDescription\<close> succeeds, and \<open>raw_response\<close> holds 1000 of them.
\<close>

theorem placeholder_carries_whole_text_counterexample:
  "JSON_parse env_long (clean_response (replicate 1001 CHR ''x'')) = None \<and>
   fst (getVideoDescription env_long ''/tmp/A_1_clip.mp4'' (world (init :: json state))) =
     Inr \<lparr>description = Placeholder ''JSON parsing failed'' (replicate 1000 CHR ''x'')
                            ''2025-01-01T00:00:00.000Z'',
          modelUsed = ''gemini-2.5-flash'',
          tokenUsage = \<lparr>promptTokens = 0, candidatesTokens = 0, totalTokens = 0\<rparr>\<rparr> \<and>
   replicate 1000 CHR ''x'' \<noteq> clean_response (replicate 1001 CHR ''x'') \<and>
   replicate 1000 CHR ''x'' \<noteq> replicate 1001 CHR ''x''"
proof -
  have 1: "genAI_ok env_long" by (simp add: env_defs)
  have 2: "stat env_long = Inr 1048576" by (simp add: env_defs)
  have 3: "\<not> 50 < fileSizeInMB 1048576" by (simp add: fileSizeInMB_def)
  have 4: "read_file env_long = None" by (simp add: env_defs)
  have 5: "availableModels 1048576 =
      [] @ \<lparr>name = ''gemini-2.5-flash'', maxSizeMB = 50\<rparr> # [\<lparr>name = ''gemini-2.5-pro'', maxSizeMB = 30\<rparr>]"
    by (simp add: availableModels_def modelConfigs_def fileSizeInMB_def)
  have 6: "\<forall>c\<in>set []. generate env_long (name c) = GenFailed" by simp
  have 7: "generate env_long (name \<lparr>name = ''gemini-2.5-flash'', maxSizeMB = 50\<rparr>) =
      GenResponse (replicate 1001 CHR ''x'') None"
    by (simp add: env_defs)
  have p: "JSON_parse env_long = JSON_parse_word" by (simp add: env_defs)
  have 8: "JSON_parse env_long (clean_response (replicate 1001 CHR ''x'')) = None"
    by (simp only: p clean_letters word_x_not_json)
  have i: "iso_now env_long = ''2025-01-01T00:00:00.000Z''" by (simp add: env_defs)
  have n: "replicate 1000 CHR ''x'' \<noteq> replicate 1001 CHR ''x''"
    by (auto dest: arg_cong [where f = length])
  have g: "fst (getVideoDescription env_long ''/tmp/A_1_clip.mp4'' (world (init :: json state))) =
     Inr \<lparr>description = Placeholder ''JSON parsing failed'' (replicate 1000 CHR ''x'')
                            ''2025-01-01T00:00:00.000Z'',
          modelUsed = ''gemini-2.5-flash'',
          tokenUsage = \<lparr>promptTokens = 0, candidatesTokens = 0, totalTokens = 0\<rparr>\<rparr>"
    by (simp add: getVideoDescription_parse_failure [OF 1 2 3 4 5 6 7 8] clean_letters i usage_of_def)
  from 8 g n show ?thesis by (simp only: clean_letters) simp
qed

text \<open>
  C8, amended. When the first tier that answers gives a text whose cleaned form (trimmed,
  the code fences removed, trimmed again) does not parse as JSON, \<open>getVideoDescription\<close>
  returns a result, not an error: its description is the placeholder with the tag
  \<open>JSON parsing failed\<close>, the first 1000 code units of the cleaned text and the time of
  parsing, together with the name of the tier and the token counts.
\<close>

theorem parse_failure_is_wrapped:
  assumes "genAI_ok e" and "stat e = Inr bytes" and "\<not> 50 < fileSizeInMB bytes"
    and "read_file e = None"
    and "availableModels bytes = failed @ tier # rest"
    and "\<forall>c\<in>set failed. generate e (name c) = GenFailed"
    and "generate e (name tier) = GenResponse text usage"
    and "JSON_parse e (clean_response text) = None"
  shows "getVideoDescription e filePath w =
           (Inr \<lparr>description = Placeholder ''JSON parsing failed''
                                 (take 1000 (clean_response text)) (iso_now e),
                 modelUsed = name tier,
                 tokenUsage = usage_of usage\<rparr>,
            called (GetVideoDescription filePath) w)"
  using assms by (rule getVideoDescription_parse_failure)

text \<open>The first tier answers \<open>hello\<close>.\<close>

theorem parse_failure_is_wrapped_witness:
  "getVideoDescription env_prose ''/tmp/A_1_clip.mp4'' (world (init :: json state)) =
     (Inr \<lparr>description = Placeholder ''JSON parsing failed'' ''hello'' ''2025-01-01T00:00:00.000Z'',
           modelUsed = ''gemini-2.5-flash'',
           tokenUsage = \<lparr>promptTokens = 0, candidatesTokens = 0, totalTokens = 0\<rparr>\<rparr>,
      called (GetVideoDescription ''/tmp/A_1_clip.mp4'') (world (init :: json state)))"
proof -
  have 1: "genAI_ok env_prose" by (simp add: env_defs)
  have 2: "stat env_prose = Inr 1048576" by (simp add: env_defs)
  have 3: "\<not> 50 < fileSizeInMB 1048576" by (simp add: fileSizeInMB_def)
  have 4: "read_file env_prose = None" by (simp add: env_defs)
  have 5: "availableModels 1048576 =
      [] @ \<lparr>name = ''gemini-2.5-flash'', maxSizeMB = 50\<rparr> # [\<lparr>name = ''gemini-2.5-pro'', maxSizeMB = 30\<rparr>]"
    by (simp add: availableModels_def modelConfigs_def fileSizeInMB_def)
  have 6: "\<forall>c\<in>set []. generate env_prose (name c) = GenFailed" by simp
  have 7: "generate env_prose (name \<lparr>name = ''gemini-2.5-flash'', maxSizeMB = 50\<rparr>) = GenResponse ''hello'' None"
    by (simp add: env_defs)
  have 8: "JSON_parse env_prose (clean_response ''hello'') = None"
    by (simp add: clean_hello env_defs)
  show ?thesis
    using parse_failure_is_wrapped [OF 1 2 3 4 5 6 7 8, of "''/tmp/A_1_clip.mp4''" "world (init :: json state)"]
    by (simp add: clean_hello usage_of_def env_defs)
qed

section \<open>Release of the temporary file\<close>

lemma snd_getVideoDescription:
  "snd (getVideoDescription e filePath w) = called (GetVideoDescription filePath) w"
  by (simp add: getVideoDescription_def Let_def split: sum.splits)

lemma files_cleanupTempFile:
  "unlink e = None \<Longrightarrow> filePath \<notin> set (files (cleanupTempFile e filePath w))"
  by (simp add: cleanupTempFile_def called_def Let_def)

lemma calls_cleanupTempFile:
  "calls (cleanupTempFile e filePath w) = calls w @ [CleanupTempFile filePath]"
  by (simp add: cleanupTempFile_def called_def Let_def split: option.splits)

lemma sent_cleanupTempFile: "sent (cleanupTempFile e filePath w) = sent w"
  by (simp add: cleanupTempFile_def called_def Let_def split: option.splits)

lemma pending_cleanupTempFile: "pending_opens (cleanupTempFile e filePath w) = pending_opens w"
  by (simp add: cleanupTempFile_def called_def Let_def split: option.splits)

lemma calls_complete_opens: "calls (complete_opens w) = calls w"
  by (simp add: complete_opens_def)

lemma sent_complete_opens: "sent (complete_opens w) = sent w"
  by (simp add: complete_opens_def)

lemma files_complete_opens:
  "set (files (complete_opens w)) = set (files w) \<union> set (pending_opens w)"
  by (auto simp: complete_opens_def)

lemma fst_downloadVideoFromDrive:
  "fst (downloadVideoFromDrive e vid w) = fst (downloadVideoFromDrive e vid w')"
  by (simp add: downloadVideoFromDrive_def Let_def split: sum.splits option.splits save_outcome.splits)

lemma downloaded_file_exists:
  assumes "fst (downloadVideoFromDrive e vid w) = Inr filePath" and "stream_open e = OpenedAtOnce"
  shows "filePath \<in> set (files (snd (downloadVideoFromDrive e vid w))) \<and>
         pending_opens (snd (downloadVideoFromDrive e vid w)) = pending_opens w"
  using assms
  by (auto simp: downloadVideoFromDrive_def createWriteStream_def called_def Let_def
      split: sum.splits option.splits save_outcome.splits if_splits)

text \<open>
  What holds of the clean-up. When the download hands its path to the run (it resolves
  before the timer of the fetch stage), then however the run goes on, the last call of the
  run is \<open>cleanupTempFile\<close> on that path; and when the file was open by then and
  \<open>unlinkSync\<close> does not throw, the file is not on disk afterwards.
\<close>

lemma resolved_download_is_cleaned:
  assumes "\<not> fetch_deadline e" and "fst (downloadVideoFromDrive e vid w) = Inr filePath"
  shows "last (calls (snd (performVideoAnalysis e vid w))) = CleanupTempFile filePath \<and>
         (stream_open e = OpenedAtOnce \<longrightarrow> unlink e = None \<longrightarrow>
          filePath \<notin> set (pending_opens w) \<longrightarrow>
            filePath \<notin> set (files (snd (performVideoAnalysis e vid w))))"
proof -
  obtain w1 where d: "downloadVideoFromDrive e vid w = (Inr filePath, w1)"
    using assms(2) by (cases "downloadVideoFromDrive e vid w") simp
  obtain a w2 where g: "getVideoDescription e filePath w1 = (a, w2)"
    by (cases "getVideoDescription e filePath w1")
  then have w2: "w2 = called (GetVideoDescription filePath) w1"
    using snd_getVideoDescription [of e filePath w1] by simp
  have c: "last (calls (snd (performVideoAnalysis e vid w))) = CleanupTempFile filePath"
    using assms(1)
    by (simp add: performVideoAnalysis_def d g Let_def calls_complete_opens calls_cleanupTempFile
        split: sum.splits option.splits)
  have f: "filePath \<notin> set (files (snd (performVideoAnalysis e vid w)))"
    if o: "stream_open e = OpenedAtOnce" and u: "unlink e = None"
      and p: "filePath \<notin> set (pending_opens w)"
  proof -
    from downloaded_file_exists [OF assms(2) o] d have "pending_opens w1 = pending_opens w"
      by simp
    with p have "filePath \<notin> set (pending_opens w2)" by (simp add: w2 called_def)
    then show ?thesis
      using assms(1) u
      by (simp add: performVideoAnalysis_def d g Let_def files_complete_opens
          files_cleanupTempFile pending_cleanupTempFile called_def
          split: sum.splits option.splits)
  qed
  from c f show ?thesis by blast
qed

lemma files_send_once: "files (send_once r x w) = files w"
  by (simp add: send_once_def send_def)

text \<open>
  C9. A run whose download takes longer than the timer of the fetch stage allows. The run
  ends with \<open>Timeout en descarga\<close>, \<open>filePath\<close> is still undefined in the \<open>finally\<close> block,
  so \<open>cleanupTempFile\<close> is never called; the download is not stopped, and the file it
  writes is on disk when everything has settled.
\<close>

theorem lost_fetch_race_leaves_file:
  "fst (downloadVideoFromDrive (env_ok\<lparr>fetch_deadline := True\<rparr>) ''A'' (world (init :: json state)))
     = Inr ''/tmp/A_1700000000000_clip.mp4'' \<and>
   fst (performVideoAnalysis (env_ok\<lparr>fetch_deadline := True\<rparr>) ''A'' (world (init :: json state)))
     = Inl ''Timeout en descarga'' \<and>
   files (snd (performVideoAnalysis (env_ok\<lparr>fetch_deadline := True\<rparr>) ''A''
                 (world (init :: json state))))
     = [''/tmp/A_1700000000000_clip.mp4''] \<and>
   calls (snd (performVideoAnalysis (env_ok\<lparr>fetch_deadline := True\<rparr>) ''A''
                 (world (init :: json state))))
     = [DownloadVideoFromDrive ''A'']"
  by (simp add: pipeline_defs world_defs string_defs env_defs init_def Let_def
      cong: let_weak_cong prod.case_cong_weak)

text \<open>
  Two more ways in which a file stays although the clean-up is called: \<open>unlinkSync\<close> throws
  (the error is caught and logged), or the download stream breaks before the file of the
  write stream has been opened, so that the clean-up of the error handler finds nothing and
  the file appears afterwards.
\<close>

lemma failed_unlink_leaves_file:
  "files (snd (performVideoAnalysis (env_ok\<lparr>unlink := Some ''EPERM''\<rparr>) ''A''
                 (world (init :: json state))))
     = [''/tmp/A_1700000000000_clip.mp4''] \<and>
   last (calls (snd (performVideoAnalysis (env_ok\<lparr>unlink := Some ''EPERM''\<rparr>) ''A''
                 (world (init :: json state)))))
     = CleanupTempFile ''/tmp/A_1700000000000_clip.mp4''"
  by (simp add: pipeline_defs world_defs string_defs env_defs init_def Let_def
      cong: let_weak_cong prod.case_cong_weak)

lemma late_open_leaves_file:
  "files (snd (performVideoAnalysis (env_reset\<lparr>stream_open := OpenedLate\<rparr>) ''A''
                 (world (init :: json state))))
     = [''/tmp/A_1700000000000_clip.mp4''] \<and>
   calls (snd (performVideoAnalysis (env_reset\<lparr>stream_open := OpenedLate\<rparr>) ''A''
                 (world (init :: json state))))
     = [DownloadVideoFromDrive ''A'', CleanupTempFile ''/tmp/A_1700000000000_clip.mp4'']"
  by (simp add: pipeline_defs world_defs string_defs env_defs init_def Let_def
      cong: let_weak_cong prod.case_cong_weak)

section \<open>Delivery at most once\<close>

text \<open>
  Every response that the queue, the timers and the pipeline send on the response object of
  an accepted request is behind the guard \<open>!res.headersSent\<close>; the responses 400 and 409
  are sent on a response object that has just arrived. So when every request brings its own
  response object, no response object ever gets a second response.
\<close>

lemma answers_refl: "answers r w w"
  by (simp add: answers_def)

lemma answers_same: "sent w' = sent w \<Longrightarrow> answers r w w'"
  by (simp add: answers_def)

lemma answers_trans: "answers r w w' \<Longrightarrow> answers r w' w'' \<Longrightarrow> answers r w w''"
  by (auto simp: answers_def)

lemma answers_send_once: "answers r w (send_once r x w)"
  by (simp add: answers_def send_once_def send_def headersSent_def)

lemma answers_send_fresh: "sent w r = [] \<Longrightarrow> answers r w (send r x w)"
  by (simp add: answers_def send_def)

lemma sent_called: "sent (called c w) = sent w"
  by (simp add: called_def)

lemma sent_createWriteStream: "sent (createWriteStream e p w) = sent w"
  by (simp add: createWriteStream_def split: open_outcome.splits)

lemma sent_download: "sent (snd (downloadVideoFromDrive e v w)) = sent w"
  by (simp add: downloadVideoFromDrive_def Let_def sent_called sent_cleanupTempFile sent_createWriteStream
      split: sum.splits option.splits save_outcome.splits)

lemma sent_performVideoAnalysis: "sent (snd (performVideoAnalysis e v w)) = sent w"
proof -
  obtain d w1 where d: "downloadVideoFromDrive e v w = (d, w1)"
    by (cases "downloadVideoFromDrive e v w")
  then have w1: "sent w1 = sent w" using sent_download [of e v w] by simp
  show ?thesis
  proof (cases "if fetch_deadline e then Inl ''Timeout en descarga'' else d")
    case (Inl msg)
    with d w1 show ?thesis by (simp add: performVideoAnalysis_def Let_def sent_complete_opens)
  next
    case (Inr filePath)
    obtain a w2 where g: "getVideoDescription e filePath w1 = (a, w2)"
      by (cases "getVideoDescription e filePath w1")
    then have w2: "w2 = called (GetVideoDescription filePath) w1"
      using snd_getVideoDescription [of e filePath w1] by simp
    show ?thesis
      using d Inr g w1
      by (simp add: performVideoAnalysis_def Let_def w2 sent_called sent_cleanupTempFile
          sent_complete_opens
          split: sum.splits option.splits)
  qed
qed

lemma answers_processVideo: "answers r w (snd (processVideo e v r w))"
proof (cases "db_get e")
  case (Inl msg)
  then show ?thesis by (simp add: processVideo_def Let_def answers_same sent_called)
next
  case (Inr row)
  show ?thesis
  proof (cases row)
    case (Some existing)
    have "answers r w (called (GetVideoFromDB v) w)" by (simp add: answers_same sent_called)
    then show ?thesis
      using Inr Some by (auto simp: processVideo_def Let_def intro: answers_trans answers_send_once)
  next
    case None
    obtain p w1 where p: "performVideoAnalysis e v (called (GetVideoFromDB v) w) = (p, w1)"
      by (cases "performVideoAnalysis e v (called (GetVideoFromDB v) w)")
    then have "sent w1 = sent w"
      using sent_performVideoAnalysis [of e v "called (GetVideoFromDB v) w"] by (simp add: sent_called)
    then have a: "answers r w w1" by (rule answers_same)
    show ?thesis
      using Inr None p a
      by (auto simp: processVideo_def Let_def split: sum.splits intro: answers_trans answers_send_once)
  qed
qed




lemma find_SomeD: "find P xs = Some x \<Longrightarrow> x \<in> set xs \<and> P x"
  by (induction xs) (auto split: if_splits)

lemma remove_first_subset: "set (remove_first P xs) \<subseteq> set xs"
  by (induction xs) auto

lemma refs_setTimeout: "refs (snd (setTimeout a d st)) = refs st \<union> timer_res a"
  by (auto simp: refs_def setTimeout_def)

lemma world_setTimeout: "world (snd (setTimeout a d st)) = world st"
  by (simp add: setTimeout_def)

lemma refs_clearTimeout: "refs (clearTimeout h st) \<subseteq> refs st"
  by (auto simp: refs_def clearTimeout_def)

lemma world_clearTimeout: "world (clearTimeout h st) = world st"
  by (simp add: clearTimeout_def)

lemma refs_respond: "refs (respond r x st) = refs st" "refs (respond_once r x st) = refs st"
  by (simp_all add: refs_def respond_def respond_once_def)

lemma refs_removeFromQueue: "refs (removeFromQueue v st) \<subseteq> refs st"
proof (cases "find (\<lambda>item. videoId item = v) (queue st)")
  case None
  then show ?thesis by (simp add: removeFromQueue_def Let_def refs_def)
next
  case (Some item)
  have "refs (clearTimeout (timeout item)
          (st\<lparr>queue := remove_first (\<lambda>item. videoId item = v) (queue st)\<rparr>)) \<subseteq>
        refs (st\<lparr>queue := remove_first (\<lambda>item. videoId item = v) (queue st)\<rparr>)"
    by (rule refs_clearTimeout)
  also have "\<dots> \<subseteq> refs st"
    using remove_first_subset [of "\<lambda>item. videoId item = v" "queue st"]
    by (auto simp: refs_def)
  finally show ?thesis using Some by (simp add: removeFromQueue_def Let_def refs_def)
qed

lemma world_removeFromQueue: "world (removeFromQueue v st) = world st"
  by (simp add: removeFromQueue_def clearTimeout_def Let_def split: option.splits)

lemma refs_processQueue: "refs (processQueue st) \<subseteq> refs st"
  by (auto simp: refs_def processQueue_def split: option.splits dest!: find_SomeD)

lemma world_processQueue: "world (processQueue st) = world st"
  by (simp add: processQueue_def split: option.splits)

lemma refs_retryAttempts: "refs (st\<lparr>retryAttempts := m\<rparr>) = refs st"
  by (simp add: refs_def)

lemma refs_catch: "refs (processQueue_catch v r m st) = refs st"
  by (simp add: processQueue_catch_def Let_def refs_setTimeout refs_respond refs_retryAttempts)

lemma answers_catch: "answers r (world st) (world (processQueue_catch v r m st))"
  by (simp add: processQueue_catch_def Let_def world_setTimeout respond_once_def
      answers_refl answers_send_once)

lemma refs_finally: "refs (processQueue_finally v st) \<subseteq> refs st"
proof -
  have "refs (processQueue_finally v st) =
        refs (removeFromQueue v (st\<lparr>currentProcessing := currentProcessing st - 1\<rparr>))"
    by (simp add: processQueue_finally_def refs_setTimeout)
  also have "\<dots> \<subseteq> refs (st\<lparr>currentProcessing := currentProcessing st - 1\<rparr>)"
    by (rule refs_removeFromQueue)
  also have "\<dots> = refs st" by (simp add: refs_def)
  finally show ?thesis .
qed

lemma world_finally: "world (processQueue_finally v st) = world st"
  by (simp add: processQueue_finally_def world_setTimeout world_removeFromQueue)

lemma resume_effect:
  assumes "i < length (running st)"
  shows "refs (processQueue_resume e i st) \<subseteq> refs st \<and>
         answers (res (running st ! i)) (world st) (world (processQueue_resume e i st))"
proof -
  let ?v = "videoId (running st ! i)" and ?r = "res (running st ! i)"
  let ?st0 = "st\<lparr>running := take i (running st) @ drop (Suc i) (running st)\<rparr>"
  obtain outcome w1 where pv: "processVideo e ?v ?r (world ?st0) = (outcome, w1)"
    by (cases "processVideo e ?v ?r (world ?st0)")
  let ?st1 = "?st0\<lparr>world := w1\<rparr>"
  let ?st2 = "case outcome of Inr u \<Rightarrow> ?st1 | Inl message \<Rightarrow> processQueue_catch ?v ?r message ?st1"
  have eq: "processQueue_resume e i st = processQueue_finally ?v ?st2"
    using assms pv by (simp add: processQueue_resume_def Let_def)
  have r1: "refs ?st1 \<subseteq> refs st"
    by (auto simp: refs_def dest: in_set_takeD in_set_dropD)
  have r2: "refs ?st2 \<subseteq> refs st"
    using r1 by (cases outcome) (simp_all add: refs_catch)
  have a1: "answers ?r (world st) w1"
    using answers_processVideo [of ?r "world ?st0" e ?v] pv by simp
  have a2: "answers ?r (world st) (world ?st2)"
  proof (cases outcome)
    case (Inl message)
    from answers_catch [of ?r ?st1 ?v message] have "answers ?r w1 (world ?st2)"
      using Inl by simp
    with a1 show ?thesis by (rule answers_trans)
  next
    case (Inr u)
    with a1 show ?thesis by simp
  qed
  from refs_finally [of ?v ?st2] r2 have "refs (processQueue_finally ?v ?st2) \<subseteq> refs st"
    by blast
  with a2 show ?thesis by (simp add: eq world_finally)
qed


lemma world_respond:
  "world (respond r x st) = send r x (world st)"
  "world (respond_once r x st) = send_once r x (world st)"
  by (simp_all add: respond_def respond_once_def)

lemma add_effect:
  "refs (add v r now st) \<subseteq> refs st \<union> {r} \<and>
   (sent (world st) r = [] \<longrightarrow> answers r (world st) (world (add v r now st)))"
proof (cases "v \<in> set (processingIds st) \<or> list_ex (\<lambda>item. videoId item = v) (queue st)")
  case True
  then have "\<exists>x. add v r now st = respond r x st"
    by (cases "v \<in> set (processingIds st)") (auto simp: add_def)
  then obtain x where x: "add v r now st = respond r x st" ..
  show ?thesis
    unfolding x by (auto simp: refs_respond world_respond answers_send_fresh)
next
  case False
  let ?st1 = "snd (setTimeout (HttpTimeout v r) HTTP_TIMEOUT st)"
  let ?item = "\<lparr>videoId = v, res = r, timestamp = now,
                 timeout = fst (setTimeout (HttpTimeout v r) HTTP_TIMEOUT st)\<rparr>"
  let ?st2 = "?st1\<lparr>queue := queue ?st1 @ [?item]\<rparr>"
  have eq: "add v r now st = processQueue ?st2"
    using False by (simp add: add_def Let_def case_prod_beta)
  have "refs ?st2 = refs ?st1 \<union> {r}" by (auto simp: refs_def)
  then have "refs ?st2 = refs st \<union> {r}" by (simp add: refs_setTimeout)
  with refs_processQueue [of ?st2] have "refs (processQueue ?st2) \<subseteq> refs st \<union> {r}" by simp
  moreover have "world (processQueue ?st2) = world st"
    by (simp add: world_processQueue world_setTimeout)
  ultimately show ?thesis by (simp add: eq answers_refl)
qed

lemma post_effect:
  "refs (post v r now st) \<subseteq> refs st \<union> {r} \<and>
   (sent (world st) r = [] \<longrightarrow> answers r (world st) (world (post v r now st)))"
proof -
  let ?st1 = "snd (setTimeout (SocketTimeout r) HTTP_TIMEOUT st)"
  have r1: "refs ?st1 = refs st \<union> {r}" by (simp add: refs_setTimeout)
  have w1: "world ?st1 = world st" by (rule world_setTimeout)
  show ?thesis
  proof (cases "v = []")
    case True
    then have "\<exists>x. post v r now st = respond r x ?st1" by (auto simp: post_def Let_def)
    then obtain x where x: "post v r now st = respond r x ?st1" ..
    show ?thesis
      unfolding x by (auto simp: refs_respond world_respond r1 w1 answers_send_fresh)
  next
    case False
    then have eq: "post v r now st = add v r now ?st1" by (simp add: post_def Let_def)
    from add_effect [of v r now ?st1] show ?thesis
      unfolding eq r1 w1 by simp
  qed
qed

lemma fire_effect:
  "refs (fire h st) \<subseteq> refs st \<and>
   (world (fire h st) = world st \<or>
    (\<exists>r\<in>refs st. answers r (world st) (world (fire h st))))"
proof (cases "find (\<lambda>t. handle t = h) (timers st)")
  case None
  then show ?thesis by (simp add: fire_def)
next
  case (Some t)
  then have t: "t \<in> set (timers st)" by (auto dest: find_SomeD)
  let ?st1 = "clearTimeout h st"
  have c: "refs ?st1 \<subseteq> refs st" by (rule refs_clearTimeout)
  have w: "world ?st1 = world st" by (rule world_clearTimeout)
  show ?thesis
  proof (cases "action t")
    case (HttpTimeout v r)
    with t have r: "r \<in> refs st" by (force simp: refs_def)
    have "\<exists>x. fire h st = removeFromQueue v (respond_once r x ?st1)"
      using Some HttpTimeout by (auto simp: fire_def Let_def)
    then obtain x where x: "fire h st = removeFromQueue v (respond_once r x ?st1)" ..
    have "refs (fire h st) \<subseteq> refs (respond_once r x ?st1)"
      unfolding x by (rule refs_removeFromQueue)
    with c have 1: "refs (fire h st) \<subseteq> refs st" by (simp add: refs_respond)
    have "world (fire h st) = send_once r x (world st)"
      unfolding x by (simp add: world_removeFromQueue world_respond w)
    then have "answers r (world st) (world (fire h st))" by (simp add: answers_send_once)
    with 1 r show ?thesis by blast
  next
    case (SocketTimeout r)
    with t have r: "r \<in> refs st" by (force simp: refs_def)
    have "\<exists>x. fire h st = respond_once r x ?st1"
      using Some SocketTimeout by (auto simp: fire_def Let_def)
    then obtain x where x: "fire h st = respond_once r x ?st1" ..
    from c have 1: "refs (fire h st) \<subseteq> refs st" unfolding x by (simp add: refs_respond)
    have "world (fire h st) = send_once r x (world st)"
      unfolding x by (simp add: world_respond w)
    then have "answers r (world st) (world (fire h st))" by (simp add: answers_send_once)
    with 1 r show ?thesis by blast
  next
    case (Retry v)
    let ?st2 = "?st1\<lparr>processingIds := set_delete v (processingIds ?st1)\<rparr>"
    have eq: "fire h st = processQueue ?st2"
      using Some Retry by (simp add: fire_def Let_def)
    have "refs ?st2 = refs ?st1" by (simp add: refs_def)
    with refs_processQueue [of ?st2] c have "refs (fire h st) \<subseteq> refs st"
      unfolding eq by simp
    moreover have "world (fire h st) = world st"
      unfolding eq by (simp add: world_processQueue w)
    ultimately show ?thesis by simp
  next
    case Kick
    have eq: "fire h st = processQueue ?st1"
      using Some Kick by (simp add: fire_def Let_def)
    from refs_processQueue [of ?st1] c have "refs (fire h st) \<subseteq> refs st"
      unfolding eq by simp
    moreover have "world (fire h st) = world st"
      unfolding eq by (simp add: world_processQueue w)
    ultimately show ?thesis by simp
  qed
qed



lemma once_ok_answers:
  assumes "once_ok P st" and "r \<in> P" and "answers r (world st) (world st')" and "refs st' \<subseteq> P"
  shows "once_ok P st'"
  unfolding once_ok_def
proof (intro conjI allI impI)
  fix r'
  show "length (sent (world st') r') \<le> 1"
    using assms(1,3) by (cases "r' = r") (auto simp: once_ok_def answers_def)
next
  fix r'
  assume "r' \<notin> P"
  with assms(2) have "r' \<noteq> r" by auto
  with assms(1,3) \<open>r' \<notin> P\<close> show "sent (world st') r' = []"
    by (simp add: once_ok_def answers_def)
next
  show "refs st' \<subseteq> P" by (rule assms(4))
qed

lemma once_ok_same:
  assumes "once_ok P st" and "world st' = world st" and "refs st' \<subseteq> P"
  shows "once_ok P st'"
  using assms by (simp add: once_ok_def)

lemma once_ok_mono: "once_ok P st \<Longrightarrow> P \<subseteq> Q \<Longrightarrow> once_ok Q st"
  by (auto simp: once_ok_def)

lemma once_ok_step:
  assumes "once_ok P st" and "set (post_res ev) \<inter> P = {}"
  shows "once_ok (P \<union> set (post_res ev)) (step ev st)"
proof (cases ev)
  case (Post v r now)
  from assms(2) Post have fresh: "r \<notin> P" by simp
  with assms(1) have empty: "sent (world st) r = []" by (simp add: once_ok_def)
  from assms(1) have ok: "once_ok (P \<union> {r}) st" by (rule once_ok_mono) auto
  from assms(1) have "refs st \<subseteq> P" by (simp add: once_ok_def)
  with post_effect [of v r now st] empty
  have "answers r (world st) (world (post v r now st))" "refs (post v r now st) \<subseteq> P \<union> {r}"
    by auto
  with ok have "once_ok (P \<union> {r}) (post v r now st)"
    using once_ok_answers [of "P \<union> {r}" st r "post v r now st"] by simp
  with Post show ?thesis by simp
next
  case Tick
  from assms(1) have "refs st \<subseteq> P" by (simp add: once_ok_def)
  with refs_processQueue [of st] have "refs (processQueue st) \<subseteq> P" by blast
  with assms(1) have "once_ok P (processQueue st)"
    using once_ok_same [of P st "processQueue st"] by (simp add: world_processQueue)
  with Tick show ?thesis by simp
next
  case (Fire h)
  from assms(1) have sub: "refs st \<subseteq> P" by (simp add: once_ok_def)
  with fire_effect [of h st] have r: "refs (fire h st) \<subseteq> P" by blast
  from fire_effect [of h st]
  have "world (fire h st) = world st \<or> (\<exists>r\<in>refs st. answers r (world st) (world (fire h st)))"
    by simp
  then have "once_ok P (fire h st)"
  proof
    assume "world (fire h st) = world st"
    with assms(1) r show ?thesis using once_ok_same [of P st "fire h st"] by simp
  next
    assume "\<exists>r\<in>refs st. answers r (world st) (world (fire h st))"
    then obtain r' where "r' \<in> refs st" "answers r' (world st) (world (fire h st))" by blast
    with sub assms(1) r show ?thesis using once_ok_answers [of P st r' "fire h st"] by auto
  qed
  with Fire show ?thesis by simp
next
  case (Settle i e)
  show ?thesis
  proof (cases "i < length (running st)")
    case True
    from assms(1) have sub: "refs st \<subseteq> P" by (simp add: once_ok_def)
    from True have "res (running st ! i) \<in> refs st" by (auto simp: refs_def)
    with sub have inP: "res (running st ! i) \<in> P" by blast
    from resume_effect [OF True, of e] sub
    have "refs (processQueue_resume e i st) \<subseteq> P"
      "answers (res (running st ! i)) (world st) (world (processQueue_resume e i st))"
      by auto
    with assms(1) inP have "once_ok P (processQueue_resume e i st)"
      using once_ok_answers [of P st "res (running st ! i)" "processQueue_resume e i st"] by simp
    with Settle show ?thesis by simp
  next
    case False
    with assms(1) Settle show ?thesis by (simp add: processQueue_resume_def)
  qed
qed

lemma once_ok_run:
  assumes "once_ok P st" and "distinct (posted evs)" and "set (posted evs) \<inter> P = {}"
  shows "once_ok (P \<union> set (posted evs)) (run evs st)"
  using assms unfolding run_def
proof (induction evs arbitrary: P st)
  case Nil
  then show ?case by (simp add: posted_def)
next
  case (Cons ev evs)
  from Cons.prems have d: "distinct (post_res ev @ posted evs)" by (simp add: posted_def)
  from Cons.prems have i: "set (post_res ev @ posted evs) \<inter> P = {}" by (simp add: posted_def)
  from i have 1: "set (post_res ev) \<inter> P = {}" by auto
  from once_ok_step [OF Cons.prems(1) 1] have ok: "once_ok (P \<union> set (post_res ev)) (step ev st)" .
  from d have d': "distinct (posted evs)" by simp
  from d i have i': "set (posted evs) \<inter> (P \<union> set (post_res ev)) = {}" by auto
  from Cons.IH [OF ok d' i']
  have "once_ok (P \<union> set (post_res ev) \<union> set (posted evs)) (fold step evs (step ev st))" .
  then show ?case by (simp add: posted_def Un_assoc)
qed

lemma once_ok_init: "once_ok {} init"
  by (simp add: once_ok_def init_def refs_def)

lemma delivery_at_most_once:
  assumes "distinct (posted evs)"
  shows "length (sent (world (run evs init)) r) \<le> 1"
proof -
  from once_ok_run [OF once_ok_init assms] have "once_ok ({} \<union> set (posted evs)) (run evs init)"
    by simp
  then show ?thesis by (simp add: once_ok_def)
qed

text \<open>Two requests for \<open>A\<close>, a failed and a successful run, and both socket timeouts.\<close>

lemma delivery_at_most_once_instance:
  "length (sent (world (run [Post ''A'' 0 5, Settle 0 env_reset, Post ''A'' 1 6, Settle 0 env_ok,
                             Fire 0, Fire 4] init)) 1) \<le> 1"
  using delivery_at_most_once
    [of "[Post ''A'' 0 5, Settle 0 env_reset, Post ''A'' 1 6, Settle 0 env_ok, Fire 0, Fire 4]" 1]
  by (simp add: posted_def)

section \<open>Delivery exactly once\<close>

text \<open>
  The middleware arms a socket timeout on every response object before the route is entered,
  and its callback sends the response 408 \<open>Timeout de servidor\<close> unless a response has been
  sent. Nothing in the program clears that timer: \<open>clearTimeout\<close> is only ever applied to the
  handle that \<open>add\<close> stored in the item, and that handle belongs to a deadline timer. So a
  response object that has no response yet still has its socket timeout ahead, and a response
  that has been sent stays the only one.
\<close>

lemma timers_ok_cong:
  "timers st' = timers st \<Longrightarrow> queue st' = queue st \<Longrightarrow> nextTimer st' = nextTimer st \<Longrightarrow>
   timers_ok st \<Longrightarrow> timers_ok st'"
  by (simp add: timers_ok_def)

lemma pending_cong: "timers st' = timers st \<Longrightarrow> socket_pending r st \<Longrightarrow> socket_pending r st'"
  by (simp add: socket_pending_def)

































section \<open>A video whose run has settled is not attempted again\<close>

text \<open>
  The \<open>finally\<close> block takes the item of the video out of the queue whatever the run's
  outcome was, a scheduled retry included. From then on, as long as no new request for the
  video arrives, no run of it starts.
\<close>

lemma quiet_simps [simp]:
  "quiet []"
  "quiet (xs @ ys) = (quiet xs \<and> quiet ys)"
  "quiet (DownloadVideoFromDrive v # xs) = quiet xs"
  "quiet (GetVideoDescription p # xs) = quiet xs"
  "quiet (InsertVideo v # xs) = quiet xs"
  "quiet (CleanupTempFile p # xs) = quiet xs"
  "quiet (GetVideoFromDB v # xs) = False"
  by (auto simp: quiet_def)

lemma quiet_count: "quiet xs \<Longrightarrow> count_list xs (GetVideoFromDB v) = 0"
  by (induction xs) (auto simp: quiet_def split: call.splits)

lemma calls_called: "calls (called c w) = calls w @ [c]"
  by (simp add: called_def)

lemma calls_createWriteStream: "calls (createWriteStream e p w) = calls w"
  by (simp add: createWriteStream_def split: open_outcome.splits)

lemma calls_send_once: "calls (send_once r x w) = calls w"
  by (simp add: send_once_def send_def)

lemma calls_download:
  "\<exists>xs. calls (snd (downloadVideoFromDrive e v w)) = calls w @ xs \<and> quiet xs"
proof -
  have "calls (snd (downloadVideoFromDrive e v w)) = calls w @ [DownloadVideoFromDrive v] \<or>
        (\<exists>p. calls (snd (downloadVideoFromDrive e v w)) =
              calls w @ [DownloadVideoFromDrive v, CleanupTempFile p])"
    by (simp add: downloadVideoFromDrive_def Let_def calls_called calls_cleanupTempFile calls_createWriteStream
        split: sum.splits option.splits save_outcome.splits)
  then show ?thesis
  proof
    assume "calls (snd (downloadVideoFromDrive e v w)) = calls w @ [DownloadVideoFromDrive v]"
    then show ?thesis by (intro exI [of _ "[DownloadVideoFromDrive v]"]) simp
  next
    assume "\<exists>p. calls (snd (downloadVideoFromDrive e v w)) =
              calls w @ [DownloadVideoFromDrive v, CleanupTempFile p]"
    then obtain p where "calls (snd (downloadVideoFromDrive e v w)) =
              calls w @ [DownloadVideoFromDrive v, CleanupTempFile p]" ..
    then show ?thesis by (intro exI [of _ "[DownloadVideoFromDrive v, CleanupTempFile p]"]) simp
  qed
qed

lemma calls_performVideoAnalysis:
  "\<exists>xs. calls (snd (performVideoAnalysis e v w)) = calls w @ xs \<and> quiet xs"
proof -
  obtain d w1 where d: "downloadVideoFromDrive e v w = (d, w1)"
    by (cases "downloadVideoFromDrive e v w")
  from calls_download [of e v w] d obtain xs where xs: "calls w1 = calls w @ xs" "quiet xs"
    by auto
  show ?thesis
  proof (cases "if fetch_deadline e then Inl ''Timeout en descarga'' else d")
    case (Inl msg)
    with d xs show ?thesis by (auto simp: performVideoAnalysis_def Let_def calls_complete_opens)
  next
    case (Inr filePath)
    obtain a w2 where g: "getVideoDescription e filePath w1 = (a, w2)"
      by (cases "getVideoDescription e filePath w1")
    then have w2: "w2 = called (GetVideoDescription filePath) w1"
      using snd_getVideoDescription [of e filePath w1] by simp
    have "calls (snd (performVideoAnalysis e v w)) = calls w @ xs @ [GetVideoDescription filePath, CleanupTempFile filePath] \<or>
          calls (snd (performVideoAnalysis e v w)) = calls w @ xs @ [GetVideoDescription filePath, InsertVideo v, CleanupTempFile filePath]"
      using d Inr g xs(1)
      by (simp add: performVideoAnalysis_def Let_def w2 calls_called calls_cleanupTempFile
          calls_complete_opens
          split: sum.splits option.splits)
    then show ?thesis
    proof
      assume "calls (snd (performVideoAnalysis e v w)) = calls w @ xs @ [GetVideoDescription filePath, CleanupTempFile filePath]"
      with xs(2) show ?thesis
        by (intro exI [of _ "xs @ [GetVideoDescription filePath, CleanupTempFile filePath]"]) simp
    next
      assume "calls (snd (performVideoAnalysis e v w)) = calls w @ xs @ [GetVideoDescription filePath, InsertVideo v, CleanupTempFile filePath]"
      with xs(2) show ?thesis
        by (intro exI [of _ "xs @ [GetVideoDescription filePath, InsertVideo v, CleanupTempFile filePath]"]) simp
    qed
  qed
qed

lemma calls_processVideo:
  "\<exists>xs. calls (snd (processVideo e v r w)) = calls w @ GetVideoFromDB v # xs \<and> quiet xs"
proof (cases "db_get e")
  case (Inl msg)
  then show ?thesis by (simp add: processVideo_def Let_def calls_called)
next
  case (Inr row)
  show ?thesis
  proof (cases row)
    case (Some existing)
    with Inr show ?thesis by (simp add: processVideo_def Let_def calls_called calls_send_once)
  next
    case None
    obtain p w1 where p: "performVideoAnalysis e v (called (GetVideoFromDB v) w) = (p, w1)"
      by (cases "performVideoAnalysis e v (called (GetVideoFromDB v) w)")
    from calls_performVideoAnalysis [of e v "called (GetVideoFromDB v) w"] p
    obtain xs where xs: "calls w1 = calls w @ GetVideoFromDB v # xs" "quiet xs"
      by (auto simp: calls_called)
    have "calls (snd (processVideo e v r w)) = calls w1"
      using Inr None p
      by (simp add: processVideo_def Let_def calls_send_once split: sum.splits)
    with xs show ?thesis by auto
  qed
qed

lemma attempts_processVideo:
  "attempts_made vid (snd (processVideo e v r w)) = attempts_made vid w + (if v = vid then 1 else 0)"
proof -
  from calls_processVideo [of e v r w] obtain xs where
    "calls (snd (processVideo e v r w)) = calls w @ GetVideoFromDB v # xs" "quiet xs" by auto
  then show ?thesis by (simp add: attempts_made_def quiet_count)
qed




lemma idle_same:
  "queue st' = queue st \<Longrightarrow> running st' = running st \<Longrightarrow> idle vid st \<Longrightarrow> idle vid st'"
  by (simp add: idle_def)

lemma find_None_not_in: "find (\<lambda>x. f x = v) xs = None \<Longrightarrow> v \<notin> f ` set xs"
  by (induction xs) (auto split: if_splits)

lemma remove_first_none: "\<forall>x\<in>set xs. \<not> P x \<Longrightarrow> remove_first P xs = xs"
  by (induction xs) auto

lemma queue_removeFromQueue:
  "queue (removeFromQueue vid st) = remove_first (\<lambda>item. videoId item = vid) (queue st)"
proof (cases "find (\<lambda>item. videoId item = vid) (queue st)")
  case None
  then have "vid \<notin> videoId ` set (queue st)" by (rule find_None_not_in)
  then have "remove_first (\<lambda>item. videoId item = vid) (queue st) = queue st"
    by (intro remove_first_none) auto
  with None show ?thesis by (simp add: removeFromQueue_def Let_def)
next
  case (Some item)
  then show ?thesis by (simp add: removeFromQueue_def clearTimeout_def Let_def)
qed

lemma running_removeFromQueue: "running (removeFromQueue v st) = running st"
  by (simp add: removeFromQueue_def clearTimeout_def Let_def split: option.splits)

lemma idle_removeFromQueue: "idle vid st \<Longrightarrow> idle vid (removeFromQueue v st)"
  using remove_first_subset [of "\<lambda>item. videoId item = v" "queue st"]
  by (auto simp: idle_def queue_removeFromQueue running_removeFromQueue)

lemma idle_processQueue: "idle vid st \<Longrightarrow> idle vid (processQueue st)"
  by (auto simp: idle_def processQueue_def split: option.splits dest!: find_SomeD)

lemma idle_catch: "idle vid st \<Longrightarrow> idle vid (processQueue_catch v r m st)"
  by (simp add: idle_def processQueue_catch_def setTimeout_def respond_once_def Let_def)

lemma calls_catch: "calls (world (processQueue_catch v r m st)) = calls (world st)"
  by (simp add: processQueue_catch_def setTimeout_def respond_once_def calls_send_once Let_def)

lemma idle_finally: "idle vid st \<Longrightarrow> idle vid (processQueue_finally v st)"
proof -
  assume i: "idle vid st"
  then have "idle vid (st\<lparr>currentProcessing := currentProcessing st - 1\<rparr>)"
    by (simp add: idle_def)
  then have "idle vid (removeFromQueue v (st\<lparr>currentProcessing := currentProcessing st - 1\<rparr>))"
    by (rule idle_removeFromQueue)
  then show ?thesis
    by (simp add: processQueue_finally_def setTimeout_def idle_def)
qed

lemma in_set_take_drop: "x \<in> set (take i xs @ drop (Suc i) xs) \<Longrightarrow> x \<in> set xs"
  by (auto dest: in_set_takeD in_set_dropD)

lemma idle_resume: "idle vid st \<Longrightarrow> idle vid (processQueue_resume e i st)"
proof (cases "i < length (running st)")
  case False
  assume "idle vid st"
  with False show ?thesis by (simp add: processQueue_resume_def)
next
  case True
  assume i: "idle vid st"
  let ?st0 = "st\<lparr>running := take i (running st) @ drop (Suc i) (running st)\<rparr>"
  obtain outcome w1 where pv:
    "processVideo e (videoId (running st ! i)) (res (running st ! i)) (world ?st0) = (outcome, w1)"
    by (cases "processVideo e (videoId (running st ! i)) (res (running st ! i)) (world ?st0)")
  have i0: "idle vid (?st0\<lparr>world := w1\<rparr>)"
    using i by (auto simp: idle_def dest!: in_set_takeD in_set_dropD)
  have i2: "idle vid (case outcome of Inr u \<Rightarrow> ?st0\<lparr>world := w1\<rparr>
              | Inl message \<Rightarrow> processQueue_catch (videoId (running st ! i)) (res (running st ! i)) message (?st0\<lparr>world := w1\<rparr>))"
    using i0 by (cases outcome) (simp_all add: idle_catch)
  show ?thesis
    using True pv idle_finally [OF i2]
    by (simp add: processQueue_resume_def Let_def)
qed

lemma attempts_resume:
  assumes "idle vid st"
  shows "attempts_made vid (world (processQueue_resume e i st)) = attempts_made vid (world st)"
proof (cases "i < length (running st)")
  case False
  then show ?thesis by (simp add: processQueue_resume_def)
next
  case True
  let ?st0 = "st\<lparr>running := take i (running st) @ drop (Suc i) (running st)\<rparr>"
  from True assms have ne: "videoId (running st ! i) \<noteq> vid"
    by (auto simp: idle_def image_iff)
  obtain outcome w1 where pv:
    "processVideo e (videoId (running st ! i)) (res (running st ! i)) (world ?st0) = (outcome, w1)"
    by (cases "processVideo e (videoId (running st ! i)) (res (running st ! i)) (world ?st0)")
  have a1: "attempts_made vid w1 = attempts_made vid (world st)"
    using attempts_processVideo [of vid e "videoId (running st ! i)" "res (running st ! i)" "world ?st0"]
      pv ne by simp
  have "world (processQueue_resume e i st) =
        world (case outcome of Inr u \<Rightarrow> ?st0\<lparr>world := w1\<rparr>
              | Inl message \<Rightarrow> processQueue_catch (videoId (running st ! i)) (res (running st ! i)) message (?st0\<lparr>world := w1\<rparr>))"
    using True pv by (simp add: processQueue_resume_def Let_def world_finally)
  then have "calls (world (processQueue_resume e i st)) = calls w1"
    by (cases outcome) (simp_all add: calls_catch)
  with a1 show ?thesis by (simp add: attempts_made_def)
qed

lemma idle_add: "v \<noteq> vid \<Longrightarrow> idle vid st \<Longrightarrow> idle vid (add v r now st)"
proof -
  assume ne: "v \<noteq> vid" and i: "idle vid st"
  show ?thesis
  proof (cases "v \<in> set (processingIds st) \<or> list_ex (\<lambda>item. videoId item = v) (queue st)")
    case True
    with i show ?thesis by (auto simp: add_def respond_def idle_def)
  next
    case False
    have "idle vid ((snd (setTimeout (HttpTimeout v r) HTTP_TIMEOUT st))
            \<lparr>queue := queue (snd (setTimeout (HttpTimeout v r) HTTP_TIMEOUT st)) @
               [\<lparr>videoId = v, res = r, timestamp = now,
                 timeout = fst (setTimeout (HttpTimeout v r) HTTP_TIMEOUT st)\<rparr>]\<rparr>)"
      using i ne by (auto simp: idle_def setTimeout_def)
    then have "idle vid (processQueue ((snd (setTimeout (HttpTimeout v r) HTTP_TIMEOUT st))
            \<lparr>queue := queue (snd (setTimeout (HttpTimeout v r) HTTP_TIMEOUT st)) @
               [\<lparr>videoId = v, res = r, timestamp = now,
                 timeout = fst (setTimeout (HttpTimeout v r) HTTP_TIMEOUT st)\<rparr>]\<rparr>))"
      by (rule idle_processQueue)
    with False show ?thesis by (simp add: add_def Let_def case_prod_beta)
  qed
qed

lemma calls_add: "calls (world (add v r now st)) = calls (world st)"
  by (simp add: add_def respond_def send_def world_processQueue setTimeout_def Let_def split: prod.splits)

lemma idle_post: "v \<noteq> vid \<Longrightarrow> idle vid st \<Longrightarrow> idle vid (post v r now st)"
proof -
  assume ne: "v \<noteq> vid" and i: "idle vid st"
  from i have "idle vid (snd (setTimeout (SocketTimeout r) HTTP_TIMEOUT st))"
    by (simp add: idle_def setTimeout_def)
  then show ?thesis
    using ne by (auto simp: post_def Let_def respond_def idle_add elim: idle_same [rotated 2])
qed

lemma calls_post: "calls (world (post v r now st)) = calls (world st)"
  by (simp add: post_def Let_def respond_def send_def calls_add setTimeout_def)

lemma idle_fire: "idle vid st \<Longrightarrow> idle vid (fire h st)"
proof (cases "find (\<lambda>t. handle t = h) (timers st)")
  case None
  assume "idle vid st"
  with None show ?thesis by (simp add: fire_def)
next
  case (Some t)
  assume i: "idle vid st"
  then have c: "idle vid (clearTimeout h st)" by (simp add: idle_def clearTimeout_def)
  show ?thesis
  proof (cases "action t")
    case (HttpTimeout v r)
    from c have "idle vid (respond_once r (Response 408
                      (TimeoutBody (''Procesamiento tom'' @ [CHR 0xF3] @ '' demasiado tiempo'')
                         v True)) (clearTimeout h st))"
      by (simp add: idle_def respond_once_def)
    then show ?thesis using Some HttpTimeout by (simp add: fire_def Let_def idle_removeFromQueue)
  next
    case (SocketTimeout r)
    with Some c show ?thesis by (simp add: fire_def Let_def idle_def respond_once_def)
  next
    case (Retry v)
    from c have "idle vid ((clearTimeout h st)\<lparr>processingIds := set_delete v (processingIds (clearTimeout h st))\<rparr>)"
      by (simp add: idle_def)
    then show ?thesis using Some Retry by (simp add: fire_def Let_def idle_processQueue)
  next
    case Kick
    with Some c show ?thesis by (simp add: fire_def Let_def idle_processQueue)
  qed
qed

lemma calls_fire: "calls (world (fire h st)) = calls (world st)"
  by (simp add: fire_def Let_def world_processQueue world_removeFromQueue respond_once_def
      calls_send_once clearTimeout_def split: option.splits timer_action.splits)

lemma attempts_post: "attempts_made vid (world (post v r now st)) = attempts_made vid (world st)"
  by (simp add: attempts_made_def calls_post)

lemma attempts_fire: "attempts_made vid (world (fire h st)) = attempts_made vid (world st)"
  by (simp add: attempts_made_def calls_fire)

lemma idle_step:
  "\<not> is_post_for vid ev \<Longrightarrow> idle vid st \<Longrightarrow>
   idle vid (step ev st) \<and>
   attempts_made vid (world (step ev st)) = attempts_made vid (world st)"
  by (cases ev)
     (simp_all add: idle_post idle_processQueue idle_fire idle_resume attempts_resume
        attempts_post attempts_fire world_processQueue)

lemma idle_run:
  "\<forall>ev\<in>set evs. \<not> is_post_for vid ev \<Longrightarrow> idle vid st \<Longrightarrow>
   idle vid (run evs st) \<and>
   attempts_made vid (world (run evs st)) = attempts_made vid (world st)"
  unfolding run_def
proof (induction evs arbitrary: st)
  case Nil
  then show ?case by simp
next
  case (Cons ev evs)
  from Cons.prems idle_step [of vid ev st]
  have s: "idle vid (step ev st)"
    "attempts_made vid (world (step ev st)) = attempts_made vid (world st)" by auto
  from Cons.IH [OF _ s(1)] Cons.prems(1) s(2) show ?case by simp
qed




lemma distinct_remove_first:
  "distinct (map f xs) \<Longrightarrow> distinct (map f (remove_first P xs))"
proof (induction xs)
  case Nil
  then show ?case by simp
next
  case (Cons x xs)
  then show ?case using remove_first_subset [of P xs] by auto
qed

lemma remove_first_gone:
  "distinct (map f xs) \<Longrightarrow> v \<notin> f ` set (remove_first (\<lambda>x. f x = v) xs)"
proof (induction xs)
  case Nil
  then show ?case by simp
next
  case (Cons x xs)
  then show ?case by (auto simp: image_iff)
qed

lemma distinct_queue_same: "queue st' = queue st \<Longrightarrow> distinct_queue st \<Longrightarrow> distinct_queue st'"
  by (simp add: distinct_queue_def)

lemma queue_processQueue: "queue (processQueue st) = queue st"
  by (simp add: processQueue_def split: option.splits)

lemma queue_catch: "queue (processQueue_catch v r m st) = queue st"
  by (simp add: processQueue_catch_def setTimeout_def respond_once_def Let_def)

lemma queue_finally:
  "queue (processQueue_finally v st) = remove_first (\<lambda>item. videoId item = v) (queue st)"
  by (simp add: processQueue_finally_def setTimeout_def queue_removeFromQueue)

lemma queue_resume:
  "i < length (running st) \<Longrightarrow>
   queue (processQueue_resume e i st) =
     remove_first (\<lambda>item. videoId item = videoId (running st ! i)) (queue st)"
  by (simp add: processQueue_resume_def Let_def queue_finally queue_catch
      split: prod.splits sum.splits)

lemma running_resume:
  "i < length (running st) \<Longrightarrow>
   running (processQueue_resume e i st) = take i (running st) @ drop (Suc i) (running st)"
  by (simp add: processQueue_resume_def processQueue_finally_def processQueue_catch_def
      setTimeout_def respond_once_def running_removeFromQueue Let_def
      split: prod.splits sum.splits)

lemma distinct_queue_removeFromQueue: "distinct_queue st \<Longrightarrow> distinct_queue (removeFromQueue v st)"
  by (simp add: distinct_queue_def queue_removeFromQueue distinct_remove_first)

lemma distinct_queue_resume: "distinct_queue st \<Longrightarrow> distinct_queue (processQueue_resume e i st)"
proof (cases "i < length (running st)")
  case True
  assume "distinct_queue st"
  with True show ?thesis by (simp add: distinct_queue_def queue_resume distinct_remove_first)
next
  case False
  assume "distinct_queue st"
  with False show ?thesis by (simp add: processQueue_resume_def)
qed

lemma distinct_queue_add: "distinct_queue st \<Longrightarrow> distinct_queue (add v r now st)"
proof (cases "v \<in> set (processingIds st) \<or> list_ex (\<lambda>item. videoId item = v) (queue st)")
  case True
  assume "distinct_queue st"
  with True show ?thesis by (auto simp: add_def respond_def distinct_queue_def)
next
  case False
  assume d: "distinct_queue st"
  from False have "v \<notin> videoId ` set (queue st)" by (auto simp: list_ex_iff)
  with d False show ?thesis
    by (simp add: add_def Let_def case_prod_beta queue_processQueue setTimeout_def distinct_queue_def)
qed

lemma distinct_queue_post: "distinct_queue st \<Longrightarrow> distinct_queue (post v r now st)"
proof -
  assume "distinct_queue st"
  then have "distinct_queue (snd (setTimeout (SocketTimeout r) HTTP_TIMEOUT st))"
    by (simp add: distinct_queue_def setTimeout_def)
  then show ?thesis
    by (auto simp: post_def Let_def respond_def distinct_queue_add elim: distinct_queue_same [rotated])
qed

lemma distinct_queue_fire: "distinct_queue st \<Longrightarrow> distinct_queue (fire h st)"
proof (cases "find (\<lambda>t. handle t = h) (timers st)")
  case None
  assume "distinct_queue st"
  with None show ?thesis by (simp add: fire_def)
next
  case (Some t)
  assume "distinct_queue st"
  then have c: "distinct_queue (clearTimeout h st)" by (simp add: distinct_queue_def clearTimeout_def)
  show ?thesis
  proof (cases "action t")
    case (HttpTimeout v r)
    from c have "distinct_queue (respond_once r (Response 408
                      (TimeoutBody (''Procesamiento tom'' @ [CHR 0xF3] @ '' demasiado tiempo'')
                         v True)) (clearTimeout h st))"
      by (simp add: distinct_queue_def respond_once_def)
    then show ?thesis
      using Some HttpTimeout by (simp add: fire_def Let_def distinct_queue_removeFromQueue)
  next
    case (SocketTimeout r)
    with Some c show ?thesis by (simp add: fire_def Let_def distinct_queue_def respond_once_def)
  next
    case (Retry v)
    with Some c show ?thesis
      by (simp add: fire_def Let_def distinct_queue_def queue_processQueue)
  next
    case Kick
    with Some c show ?thesis by (simp add: fire_def Let_def distinct_queue_def queue_processQueue)
  qed
qed

lemma distinct_queue_processQueue: "distinct_queue st \<Longrightarrow> distinct_queue (processQueue st)"
  by (simp add: distinct_queue_def queue_processQueue)

lemma distinct_queue_step: "distinct_queue st \<Longrightarrow> distinct_queue (step ev st)"
  by (cases ev)
     (simp_all add: distinct_queue_post distinct_queue_fire distinct_queue_resume
        distinct_queue_processQueue)

lemma distinct_queue_run: "distinct_queue st \<Longrightarrow> distinct_queue (run evs st)"
  unfolding run_def by (induction evs arbitrary: st) (simp_all add: distinct_queue_step)

lemma distinct_queue_init: "distinct_queue init"
  by (simp add: distinct_queue_def init_def)

lemma settled_video_is_idle:
  assumes "distinct_queue st" and "i < length (running st)"
    and "videoId (running st ! i) \<notin> videoId ` set (take i (running st) @ drop (Suc i) (running st))"
  shows "idle (videoId (running st ! i)) (processQueue_resume e i st)"
  using assms remove_first_gone [of videoId "queue st" "videoId (running st ! i)"]
  by (simp add: idle_def queue_resume running_resume distinct_queue_def)

lemma settled_run_is_never_retried:
  assumes "i < length (running (run evs init))"
    and "videoId (running (run evs init) ! i) \<notin>
           videoId ` set (take i (running (run evs init)) @ drop (Suc i) (running (run evs init)))"
    and "\<forall>ev\<in>set later. \<not> is_post_for (videoId (running (run evs init) ! i)) ev"
  shows "idle (videoId (running (run evs init) ! i))
           (run later (processQueue_resume e i (run evs init))) \<and>
         attempts_made (videoId (running (run evs init) ! i))
           (world (run later (processQueue_resume e i (run evs init)))) =
         attempts_made (videoId (running (run evs init) ! i))
           (world (processQueue_resume e i (run evs init)))"
proof -
  have d: "distinct_queue (run evs init)" by (rule distinct_queue_run [OF distinct_queue_init])
  from settled_video_is_idle [OF d assms(1,2)]
  have "idle (videoId (running (run evs init) ! i)) (processQueue_resume e i (run evs init))" .
  from idle_run [OF assms(3) this] show ?thesis .
qed

text \<open>
  The request for \<open>A\<close> whose first run fails with a reset connection: one attempt was made,
  and the retry timer, the wake-up, a tick and the socket timeout add none.
\<close>

lemma settled_run_is_never_retried_instance:
  "idle ''A'' (run [Fire 3, Fire 2, Tick, Fire 0]
                 (processQueue_resume env_reset 0 (run [Post ''A'' 0 5] init))) \<and>
   attempts_made ''A'' (world (run [Fire 3, Fire 2, Tick, Fire 0]
                 (processQueue_resume env_reset 0 (run [Post ''A'' 0 5] init)))) = 1"
proof -
  let ?s = "run [Post ''A'' 0 5] (init :: json state)"
  have r: "running ?s = [\<lparr>videoId = ''A'', res = 0, timestamp = 5, timeout = 1\<rparr>]"
    by (simp add: queue_defs Let_def cong: let_weak_cong prod.case_cong_weak)
  have 1: "0 < length (running ?s)" by (simp add: r)
  have 2: "videoId (running ?s ! 0) \<notin> videoId ` set (take 0 (running ?s) @ drop (Suc 0) (running ?s))"
    by (simp add: r)
  have 3: "\<forall>ev\<in>set [Fire 3, Fire 2, Tick, Fire 0 :: json event]. \<not> is_post_for (videoId (running ?s ! 0)) ev"
    by simp
  have a: "attempts_made ''A'' (world (processQueue_resume env_reset 0 ?s)) = 1"
    by (simp add: attempts_made_def trace_defs cong: let_weak_cong prod.case_cong_weak)
  from settled_run_is_never_retried [OF 1 2 3, of env_reset] a show ?thesis
    by (simp add: r)
qed

section \<open>Retries\<close>

text \<open>
  What the \<open>catch\<close> block does by itself: with attempts left and a retryable error it
  counts the attempt and arms the retry timer, whose delay \<open>5000 * (attempts + 1)\<close> is
  \<open>5000 * 2 ^ attempts\<close> for the two values \<open>attempts\<close> can have; otherwise it clears the
  counter and reports the failure with \<open>attempts + 1\<close>.
\<close>

lemma backoff_doubles: "attempts < maxRetries \<Longrightarrow> 5000 * (attempts + 1) = 5000 * 2 ^ attempts"
proof -
  assume "attempts < maxRetries"
  then have "attempts = 0 \<or> attempts = 1" by (auto simp: maxRetries_def)
  then show ?thesis by auto
qed

lemma catch_schedules_retry:
  assumes "attempts = (case retryAttempts st vid of None \<Rightarrow> 0 | Some n \<Rightarrow> n)"
    and "attempts < maxRetries" and "isRetryableError message"
  shows "processQueue_catch vid r message st =
           st\<lparr>retryAttempts := (retryAttempts st)(vid \<mapsto> attempts + 1),
              timers := timers st @
                [\<lparr>handle = nextTimer st, delay = 5000 * 2 ^ attempts, action = Retry vid\<rparr>],
              nextTimer := nextTimer st + 1\<rparr>"
  using assms backoff_doubles [of attempts]
  by (simp add: processQueue_catch_def setTimeout_def Let_def)

lemma catch_reports_failure:
  assumes "attempts = (case retryAttempts st vid of None \<Rightarrow> 0 | Some n \<Rightarrow> n)"
    and "\<not> (attempts < maxRetries \<and> isRetryableError message)"
    and "\<not> headersSent (world st) r"
  shows "retryAttempts (processQueue_catch vid r message st) vid = None \<and>
         sent (world (processQueue_catch vid r message st)) r =
           [Response 500
              (FailureBody
                 (''Error procesando video despu'' @ [CHR 0xE9] @ ''s de ''
                  @ decimal (attempts + 1) @ '' intentos: '' @ message)
                 vid (attempts + 1))]"
  using assms
  by (auto simp: processQueue_catch_def respond_once_def send_once_def send_def headersSent_def Let_def)

text \<open>
  C4. A request for \<open>A\<close> whose run fails with a reset connection, a retryable error, at the
  first attempt. The counter of \<open>A\<close> becomes 1 and a timer of 5000 ms is armed for the
  retry, but the \<open>finally\<close> block has taken the item out of the queue: when the wake-up and
  the retry timer have fired, nothing runs, nothing is queued, and no collaborator has been
  called again.
\<close>

theorem retry_is_not_requeued:
  "retryAttempts (run [Post ''A'' 0 5, Settle 0 env_reset] init) ''A'' = Some 1 \<and>
   timers (run [Post ''A'' 0 5, Settle 0 env_reset] init) =
     [\<lparr>handle = 0, delay = 270000, action = SocketTimeout 0\<rparr>,
      \<lparr>handle = 2, delay = 5000, action = Retry ''A''\<rparr>,
      \<lparr>handle = 3, delay = 1000, action = Kick\<rparr>] \<and>
   queue (run [Post ''A'' 0 5, Settle 0 env_reset] init) = [] \<and>
   running (run [Post ''A'' 0 5, Settle 0 env_reset, Fire 3, Fire 2] init) = [] \<and>
   queue (run [Post ''A'' 0 5, Settle 0 env_reset, Fire 3, Fire 2] init) = [] \<and>
   calls (world (run [Post ''A'' 0 5, Settle 0 env_reset, Fire 3, Fire 2] init)) =
     [GetVideoFromDB ''A'', DownloadVideoFromDrive ''A'',
      CleanupTempFile ''/tmp/A_1700000000000_clip.mp4''] \<and>
   sent (world (run [Post ''A'' 0 5, Settle 0 env_reset, Fire 3, Fire 2] init)) 0 = []"
  by (simp add: trace_defs cong: let_weak_cong prod.case_cong_weak)

text \<open>
  C5. The same request, followed until nothing is left to happen: every timer has fired, the
  queue is empty and no run waits. The run was attempted once, and the only response on the
  response object is the 408 of the socket timeout; a response 500 was never sent.
\<close>

theorem exhaustion_is_never_reported:
  "sent (world (run [Post ''A'' 0 5, Settle 0 env_reset, Fire 3, Fire 2, Tick, Fire 0] init)) 0 =
     [Response 408 (ServerTimeoutBody ''Timeout de servidor'' 270)] \<and>
   calls (world (run [Post ''A'' 0 5, Settle 0 env_reset, Fire 3, Fire 2, Tick, Fire 0] init)) =
     [GetVideoFromDB ''A'', DownloadVideoFromDrive ''A'',
      CleanupTempFile ''/tmp/A_1700000000000_clip.mp4''] \<and>
   timers (run [Post ''A'' 0 5, Settle 0 env_reset, Fire 3, Fire 2, Tick, Fire 0] init) = [] \<and>
   queue (run [Post ''A'' 0 5, Settle 0 env_reset, Fire 3, Fire 2, Tick, Fire 0] init) = [] \<and>
   running (run [Post ''A'' 0 5, Settle 0 env_reset, Fire 3, Fire 2, Tick, Fire 0] init) = []"
  by (simp add: trace_defs cong: let_weak_cong prod.case_cong_weak)

text \<open>
  The report of three attempts is reached only across requests: when the client asks three
  times and every run fails, the first two requests get no response from the queue and the
  third gets the response 500.
\<close>

lemma third_request_gets_the_failure:
  "sent (world (run [Post ''A'' 0 5, Settle 0 env_reset, Post ''A'' 1 6, Settle 0 env_reset,
                     Post ''A'' 2 7, Settle 0 env_reset] init)) 0 = [] \<and>
   sent (world (run [Post ''A'' 0 5, Settle 0 env_reset, Post ''A'' 1 6, Settle 0 env_reset,
                     Post ''A'' 2 7, Settle 0 env_reset] init)) 1 = [] \<and>
   sent (world (run [Post ''A'' 0 5, Settle 0 env_reset, Post ''A'' 1 6, Settle 0 env_reset,
                     Post ''A'' 2 7, Settle 0 env_reset] init)) 2 =
     [Response 500
        (FailureBody (''Error procesando video despu'' @ [CHR 0xE9]
                      @ ''s de 3 intentos: read ECONNRESET'') ''A'' 3)]"
  by (simp add: trace_defs cong: let_weak_cong prod.case_cong_weak)

text \<open>
  After the retryable failure of the request for \<open>A\<close>, the queue holds nothing that could
  send a response: the item is gone, no run waits, and the deadline timer of \<open>add\<close> (timer 1)
  has been cleared. Once the timers of the queue have fired, the socket timeout of the
  middleware is the only timer left.
\<close>

lemma retryable_failure_leaves_socket_timeout:
  "sent (world (run [Post ''A'' 0 5, Settle 0 env_reset] init)) 0 = [] \<and>
   queue (run [Post ''A'' 0 5, Settle 0 env_reset] init) = [] \<and>
   running (run [Post ''A'' 0 5, Settle 0 env_reset] init) = [] \<and>
   map action (timers (run [Post ''A'' 0 5, Settle 0 env_reset] init)) =
     [SocketTimeout 0, Retry ''A'', Kick] \<and>
   sent (world (run [Post ''A'' 0 5, Settle 0 env_reset, Fire 3, Fire 2, Tick] init)) 0 = [] \<and>
   map action (timers (run [Post ''A'' 0 5, Settle 0 env_reset, Fire 3, Fire 2, Tick] init)) =
     [SocketTimeout 0]"
  by (simp add: trace_defs cong: let_weak_cong prod.case_cong_weak)

text \<open>
  C6. The first request for \<open>A\<close> fails with a retryable error, a second request for \<open>A\<close>
  succeeds: the caller gets the result, and the retry counter of \<open>A\<close> is still 1.
\<close>

theorem success_keeps_retry_counter:
  "sent (world (run [Post ''A'' 0 5, Settle 0 env_reset, Post ''A'' 1 6, Settle 0 env_ok] init)) 1 =
     [Response 200
        (FreshBody ''A'' (Parsed (JBool True)) False ''gemini-2.5-flash''
           \<lparr>promptTokens = 0, candidatesTokens = 0, totalTokens = 0\<rparr>)] \<and>
   retryAttempts (run [Post ''A'' 0 5, Settle 0 env_reset, Post ''A'' 1 6, Settle 0 env_ok] init) ''A''
     = Some 1"
  by (simp add: trace_defs cong: let_weak_cong prod.case_cong_weak)

end
